theory Spec2Isabelle
  imports Complex_Main "HOL-Library.Sublist" "HOL-Library.Multiset"
begin

section \<open>Strings and arrays as the functions of index.ts use them\<close>

text \<open>
  A string is a list of code units. The model reads the code units below 256 (Latin-1), on
  which the white space of \<^verbatim>\<open>\s\<close> and of \<^verbatim>\<open>trim()\<close> is TAB, LF, VT, FF, CR, SPACE and
  NBSP. Integers of the source (\<^verbatim>\<open>targetWords\<close>, \<^verbatim>\<open>overlapWords\<close>, \<^verbatim>\<open>cap\<close>, array indices) are
  \<^typ>\<open>int\<close>: they may be zero or negative, as a \<^verbatim>\<open>number\<close> argument may.
\<close>

definition isWhiteSpace :: "char \<Rightarrow> bool" where
  "isWhiteSpace c \<longleftrightarrow> (of_char c :: nat) \<in> {9, 10, 11, 12, 13, 32, 160}"

text \<open>
  \<^verbatim>\<open>s.split(/[class]+/)\<close>: the pieces between the maximal runs of separator characters. A run
  at the start or at the end of the string leaves an empty piece there, and the empty string
  splits into one empty piece.
\<close>

function split_runs :: "(char \<Rightarrow> bool) \<Rightarrow> string \<Rightarrow> string list" where
  "split_runs sep [] = [[]]"
| "split_runs sep (c # cs) =
     (if sep c then [] # split_runs sep (dropWhile sep cs)
      else (case split_runs sep cs of
              w # ws \<Rightarrow> (c # w) # ws
            | [] \<Rightarrow> [[c]]))"
  by pat_completeness auto
termination
  by (relation "measure (\<lambda>(sep, s). length s)")
     (auto simp: less_Suc_eq_le length_dropWhile_le)

text \<open>\<^verbatim>\<open>.filter(Boolean)\<close> on an array of strings keeps the non-empty ones.\<close>

definition filterBoolean :: "string list \<Rightarrow> string list" where
  "filterBoolean ws = filter (\<lambda>w. w \<noteq> []) ws"

text \<open>\<^verbatim>\<open>xs.join(sep)\<close>.\<close>

fun join :: "string \<Rightarrow> string list \<Rightarrow> string" where
  "join sep [] = []"
| "join sep [x] = x"
| "join sep (x # y # ys) = x @ sep @ join sep (y # ys)"

text \<open>\<^verbatim>\<open>s.trim()\<close>.\<close>

definition trim :: "string \<Rightarrow> string" where
  "trim s = rev (dropWhile isWhiteSpace (rev (dropWhile isWhiteSpace s)))"

text \<open>
  \<^verbatim>\<open>xs.slice(start, end)\<close>: a negative bound counts from the end of the array, both bounds are
  clamped to the array, and an end before the start gives the empty array.
\<close>

definition js_slice :: "'a list \<Rightarrow> int \<Rightarrow> int \<Rightarrow> 'a list" where
  "js_slice xs start fin =
     (let n = int (length xs);
          k = (if start < 0 then max (n + start) 0 else min start n);
          final = (if fin < 0 then max (n + fin) 0 else min fin n)
      in take (nat (final - k)) (drop (nat k) xs))"

section \<open>The chunker\<close>

text \<open>
  \<^verbatim>\<open>chunkTextByWords\<close> of functions/src/index.ts. The \<^verbatim>\<open>for\<close> loop is \<open>chunkLoop\<close>: its
  arguments are the loop's variables, \<open>start\<close> and the array \<open>chunks\<close> built so far, and
  \<open>step\<close> is the constant computed before the loop.
\<close>

definition stepWords :: "int \<Rightarrow> int \<Rightarrow> int" where
  "stepWords targetWords overlapWords = max 1 (targetWords - max 0 overlapWords)"

function chunkLoop :: "string list \<Rightarrow> int \<Rightarrow> int \<Rightarrow> int \<Rightarrow> string list \<Rightarrow> string list" where
  "chunkLoop words targetWords overlapWords start chunks =
     (if start < int (length words) then
        (let fin = min (int (length words)) (start + targetWords);
             slice = join '' '' (js_slice words start fin);
             chunks' = (if trim slice \<noteq> [] then chunks @ [slice] else chunks)
         in if fin = int (length words) then chunks'
            else chunkLoop words targetWords overlapWords
                   (start + stepWords targetWords overlapWords) chunks')
      else chunks)"
  by pat_completeness auto
termination
  by (relation "measure (\<lambda>(words, targetWords, overlapWords, start, chunks).
                   nat (int (length words) - start))")
     (auto simp: stepWords_def)

declare chunkLoop.simps [simp del]

definition chunkTextByWords :: "string \<Rightarrow> int \<Rightarrow> int \<Rightarrow> string list" where
  "chunkTextByWords text targetWords overlapWords =
     (if text = [] then []
      else (let words = filterBoolean (split_runs isWhiteSpace text)
            in if length words = 0 then []
               else chunkLoop words targetWords overlapWords 0 []))"

text \<open>
  The windows the loop visits, in order: the pair \<open>(start, end)\<close> of every iteration. It is
  the same loop with the windows recorded in place of the chunks.
\<close>

function chunkWindows :: "nat \<Rightarrow> int \<Rightarrow> int \<Rightarrow> int \<Rightarrow> (int \<times> int) list" where
  "chunkWindows n targetWords overlapWords start =
     (if start < int n then
        (let fin = min (int n) (start + targetWords)
         in if fin = int n then [(start, fin)]
            else (start, fin) #
                 chunkWindows n targetWords overlapWords
                   (start + stepWords targetWords overlapWords))
      else [])"
  by pat_completeness auto
termination
  by (relation "measure (\<lambda>(n, targetWords, overlapWords, start). nat (int n - start))")
     (auto simp: stepWords_def)

declare chunkWindows.simps [simp del]

text \<open>\<^verbatim>\<open>chunkTextByWords\<close> of functions/src/processUpload.ts, with its own loop.\<close>

function chunkLoop_upload ::
  "string list \<Rightarrow> int \<Rightarrow> int \<Rightarrow> int \<Rightarrow> string list \<Rightarrow> string list" where
  "chunkLoop_upload words targetWords overlapWords start chunks =
     (if start < int (length words) then
        (let fin = min (int (length words)) (start + targetWords);
             slice = join '' '' (js_slice words start fin);
             chunks' = (if trim slice \<noteq> [] then chunks @ [slice] else chunks)
         in if fin = int (length words) then chunks'
            else chunkLoop_upload words targetWords overlapWords
                   (start + max 1 (targetWords - max 0 overlapWords)) chunks')
      else chunks)"
  by pat_completeness auto
termination
  by (relation "measure (\<lambda>(words, targetWords, overlapWords, start, chunks).
                   nat (int (length words) - start))")
     auto

declare chunkLoop_upload.simps [simp del]

definition chunkTextByWords_upload :: "string \<Rightarrow> int \<Rightarrow> int \<Rightarrow> string list" where
  "chunkTextByWords_upload text targetWords overlapWords =
     (if text = [] then []
      else (let words = filterBoolean (split_runs isWhiteSpace text)
            in if length words = 0 then []
               else chunkLoop_upload words targetWords overlapWords 0 []))"


section \<open>The prefilter\<close>

text \<open>
  \<^verbatim>\<open>toLowerCase()\<close> on Latin-1: the capital letters are A to Z and the accented capitals from
  0xC0 to 0xDE without the multiplication sign 0xD7, each 32 below its small letter.
\<close>

definition lowerChar :: "char \<Rightarrow> char" where
  "lowerChar c =
     (let n = (of_char c :: nat)
      in if (65 \<le> n \<and> n \<le> 90) \<or> (192 \<le> n \<and> n \<le> 222 \<and> n \<noteq> 215)
         then char_of (n + 32) else c)"

definition toLowerCase :: "string \<Rightarrow> string" where
  "toLowerCase s = map lowerChar s"

text \<open>The character class \<^verbatim>\<open>[a-z0-9]\<close>, whose complement separates the terms of a question.\<close>

definition isTermChar :: "char \<Rightarrow> bool" where
  "isTermChar c =
     (let n = (of_char c :: nat) in (97 \<le> n \<and> n \<le> 122) \<or> (48 \<le> n \<and> n \<le> 57))"

text \<open>\<^verbatim>\<open>s.startsWith(t)\<close> and \<^verbatim>\<open>s.includes(t)\<close>.\<close>

definition startsWith :: "string \<Rightarrow> string \<Rightarrow> bool" where
  "startsWith s t = prefix t s"

fun includesStr :: "string \<Rightarrow> string \<Rightarrow> bool" where
  "includesStr [] t = (t = [])"
| "includesStr (c # cs) t = (prefix t (c # cs) \<or> includesStr cs t)"

text \<open>
  \<^verbatim>\<open>Array.prototype.sort(compare)\<close> is stable. Each comparator of index.ts is the difference of
  a number read off the two elements, and is consistent unless one of these numbers is \<^verbatim>\<open>NaN\<close>
  (see the similarity ranker). The result is then the one stable arrangement in which
  \<open>compare a b \<le> 0\<close> for \<open>a\<close> before \<open>b\<close>; insertion sort computes it.
\<close>

fun sortInsert :: "('a \<Rightarrow> 'a \<Rightarrow> 'b::linordered_idom) \<Rightarrow> 'a \<Rightarrow> 'a list \<Rightarrow> 'a list" where
  "sortInsert compare x [] = [x]"
| "sortInsert compare x (y # ys) =
     (if compare x y \<le> 0 then x # y # ys else y # sortInsert compare x ys)"

definition js_sort :: "('a \<Rightarrow> 'a \<Rightarrow> 'b::linordered_idom) \<Rightarrow> 'a list \<Rightarrow> 'a list" where
  "js_sort compare xs = foldr (sortInsert compare) xs []"

text \<open>\<^verbatim>\<open>Array.from({ length: take }, (_, i) => i)\<close>: a negative length is read as 0.\<close>

definition arrayFromLength :: "int \<Rightarrow> nat list" where
  "arrayFromLength n = [0..<nat n]"

text \<open>
  \<^verbatim>\<open>prefilterChunks\<close>; its local \<^verbatim>\<open>take\<close> is \<open>takeN\<close>. An element \<^verbatim>\<open>{ i, score }\<close> of
  \<^verbatim>\<open>scored\<close> is the pair \<open>(i, score)\<close>. The \<^verbatim>\<open>for\<close> loop over the terms is \<open>termScore\<close>.
  Nothing in the \<^verbatim>\<open>try\<close> block throws on strings, so the \<^verbatim>\<open>catch\<close> branch is not reached.
\<close>

definition questionTerms :: "string \<Rightarrow> string list" where
  "questionTerms question =
     filter (\<lambda>t. length t > 2)
       (filterBoolean (split_runs (\<lambda>c. \<not> isTermChar c) (toLowerCase question)))"

fun termScore :: "string \<Rightarrow> string list \<Rightarrow> int \<Rightarrow> int" where
  "termScore lc [] score = score"
| "termScore lc (t # terms) score =
     termScore lc terms (if includesStr lc t then score + 1 else score)"

definition scoredChunks :: "string list \<Rightarrow> string list \<Rightarrow> (nat \<times> int) list" where
  "scoredChunks terms chunks =
     map (\<lambda>(c, i). (i, termScore (toLowerCase c) terms 0)) (zip chunks [0..<length chunks])"

definition prefilterChunks :: "string \<Rightarrow> string list \<Rightarrow> int \<Rightarrow> nat list" where
  "prefilterChunks question chunks cap =
     (let terms = questionTerms question;
          takeN = min cap (int (length chunks))
      in if length terms = 0 then arrayFromLength takeN
         else
           (let scored = js_sort (\<lambda>a b. snd b - snd a) (scoredChunks terms chunks);
                topIdx = map fst (js_slice scored 0 takeN);
                hasSignal = (scored \<noteq> [] \<and> snd (hd scored) > 0)
            in if hasSignal then topIdx else arrayFromLength takeN))"

text \<open>
  The scoring as the specification words it: the number of distinct query terms that occur in
  the lowercased chunk text. It is compared with \<open>termScore\<close>.
\<close>

definition distinctTermScore :: "string \<Rightarrow> string list \<Rightarrow> int" where
  "distinctTermScore lc terms = int (card (set (filter (\<lambda>t. includesStr lc t) terms)))"

section \<open>Numbers\<close>

text \<open>
  A number of the source is an IEEE-754 double: a finite double, \<^verbatim>\<open>Infinity\<close>, \<^verbatim>\<open>-Infinity\<close> or
  \<^verbatim>\<open>NaN\<close>. The finite doubles are read as the real numbers they are, the two zeros as one. A
  sum, a product, a quotient or a square root of finite operands is the exact result rounded to
  the nearest double, ties to the even significand, and an infinity when that rounding is
  beyond the largest finite double: \<open>roundNum\<close>. Its first step \<open>fl\<close> rounds to 53 significant
  bits with the exponent bounded below only (below \<open>pow2 (- 1022)\<close> the doubles are the
  multiples of \<open>pow2 (- 1074)\<close>); the second step is the overflow, which happens exactly when
  the result of \<open>fl\<close> reaches \<open>pow2 1024\<close>. A literal such as \<^verbatim>\<open>0.8\<close> is the double \<open>fl 0.8\<close>. The
  scores of the prefilter are small integers, on which the arithmetic of doubles is exact.
\<close>

definition roundHalfEven :: "real \<Rightarrow> int" where
  "roundHalfEven y =
     (let f = \<lfloor>y\<rfloor>; d = y - of_int f
      in if d < 1 / 2 then f else if d > 1 / 2 then f + 1 else if even f then f else f + 1)"

definition pow2 :: "int \<Rightarrow> real" where
  "pow2 k = (if 0 \<le> k then 2 ^ nat k else 1 / 2 ^ nat (- k))"

text \<open>The binary exponent \<open>e\<close> of a positive number \<open>x\<close>: \<open>pow2 e \<le> x < pow2 (e + 1)\<close>.\<close>

function expo2 :: "real \<Rightarrow> int" where
  "expo2 x =
     (if x \<le> 0 then 0
      else if 2 \<le> x then expo2 (x / 2) + 1
      else if x < 1 then expo2 (x * 2) - 1
      else 0)"
  by pat_completeness auto
termination
proof (relation "measure (\<lambda>x. nat \<bar>\<lfloor>log 2 x\<rfloor>\<bar>)")
  show "wf (measure (\<lambda>x. nat \<bar>\<lfloor>log 2 x\<rfloor>\<bar>))" by simp
next
  fix x :: real
  assume "\<not> x \<le> 0" "2 \<le> x"
  then have "log 2 (x / 2) = log 2 x - 1" "1 \<le> log 2 x"
    by (simp_all add: log_divide)
  then have "\<lfloor>log 2 (x / 2)\<rfloor> = \<lfloor>log 2 x\<rfloor> - 1" "1 \<le> \<lfloor>log 2 x\<rfloor>"
    by (simp_all add: le_floor_iff)
  then have "\<bar>\<lfloor>log 2 (x / 2)\<rfloor>\<bar> < \<bar>\<lfloor>log 2 x\<rfloor>\<bar>" by linarith
  then show "(x / 2, x) \<in> measure (\<lambda>x. nat \<bar>\<lfloor>log 2 x\<rfloor>\<bar>)" by simp
next
  fix x :: real
  assume "\<not> x \<le> 0" "\<not> 2 \<le> x" "x < 1"
  then have "log 2 (x * 2) = log 2 x + 1" "log 2 x < 0"
    by (simp_all add: log_mult)
  then have "\<lfloor>log 2 (x * 2)\<rfloor> = \<lfloor>log 2 x\<rfloor> + 1" "\<lfloor>log 2 x\<rfloor> < 0"
    by (simp_all add: floor_less_iff)
  then have "\<bar>\<lfloor>log 2 (x * 2)\<rfloor>\<bar> < \<bar>\<lfloor>log 2 x\<rfloor>\<bar>" by linarith
  then show "(x * 2, x) \<in> measure (\<lambda>x. nat \<bar>\<lfloor>log 2 x\<rfloor>\<bar>)" by simp
qed

declare expo2.simps [simp del]

definition fl :: "real \<Rightarrow> real" where
  "fl x =
     (if x = 0 then 0
      else (let e = max (expo2 \<bar>x\<bar>) (- 1022);
                u = pow2 (e - 52)
            in u * of_int (roundHalfEven (x / u))))"

text \<open>
  The numbers: \<open>Num x\<close> is the finite double that is the real number \<open>x\<close>. \<open>infinityOf s\<close> is
  the infinity with the sign of \<open>s\<close>, and \<open>roundNum x\<close> the double that an operation with the
  exact result \<open>x\<close> returns.
\<close>

datatype number = Num real | Infinity | NegInfinity | NaN

definition infinityOf :: "real \<Rightarrow> number" where
  "infinityOf s = (if 0 < s then Infinity else NegInfinity)"

definition roundNum :: "real \<Rightarrow> number" where
  "roundNum x = (if pow2 1024 \<le> \<bar>fl x\<bar> then infinityOf x else Num (fl x))"

text \<open>
  The operations of the source on numbers. Each takes the rounding \<open>rnd\<close> of a finite exact
  result as an argument: it is \<open>roundNum\<close> in the source, and \<open>Num\<close> gives the same operation in
  exact arithmetic. \<open>nsign\<close> is the sign of a number, 0 for a zero and for \<^verbatim>\<open>NaN\<close>.
\<close>

fun nsign :: "number \<Rightarrow> real" where
  "nsign (Num x) = sgn x"
| "nsign Infinity = 1"
| "nsign NegInfinity = - 1"
| "nsign NaN = 0"

text \<open>\<^verbatim>\<open>a + b\<close>.\<close>

fun nadd :: "(real \<Rightarrow> number) \<Rightarrow> number \<Rightarrow> number \<Rightarrow> number" where
  "nadd rnd (Num x) (Num y) = rnd (x + y)"
| "nadd rnd NaN b = NaN"
| "nadd rnd a NaN = NaN"
| "nadd rnd Infinity NegInfinity = NaN"
| "nadd rnd NegInfinity Infinity = NaN"
| "nadd rnd Infinity b = Infinity"
| "nadd rnd a Infinity = Infinity"
| "nadd rnd NegInfinity b = NegInfinity"
| "nadd rnd a NegInfinity = NegInfinity"

text \<open>\<^verbatim>\<open>a * b\<close>: an infinity times a zero is \<^verbatim>\<open>NaN\<close>.\<close>

fun nmul :: "(real \<Rightarrow> number) \<Rightarrow> number \<Rightarrow> number \<Rightarrow> number" where
  "nmul rnd (Num x) (Num y) = rnd (x * y)"
| "nmul rnd NaN b = NaN"
| "nmul rnd a NaN = NaN"
| "nmul rnd a b = (if nsign a * nsign b = 0 then NaN else infinityOf (nsign a * nsign b))"

text \<open>
  \<^verbatim>\<open>a / b\<close>. A zero divisor is read as \<open>+0\<close>; the one quotient of the source,
  in \<^verbatim>\<open>cosineSimilarity\<close>, has a divisor that is not a zero (lemma \<open>cosine_divisor\<close> below).
\<close>

fun ndiv :: "(real \<Rightarrow> number) \<Rightarrow> number \<Rightarrow> number \<Rightarrow> number" where
  "ndiv rnd (Num x) (Num y) =
     (if y = 0 then (if x = 0 then NaN else infinityOf x) else rnd (x / y))"
| "ndiv rnd NaN b = NaN"
| "ndiv rnd a NaN = NaN"
| "ndiv rnd (Num x) b = Num 0"
| "ndiv rnd a (Num y) = infinityOf (nsign a * (if y < 0 then - 1 else 1))"
| "ndiv rnd a b = NaN"

text \<open>\<^verbatim>\<open>Math.sqrt(a)\<close>, the correctly rounded square root.\<close>

fun Math_sqrt :: "(real \<Rightarrow> number) \<Rightarrow> number \<Rightarrow> number" where
  "Math_sqrt rnd (Num x) = (if x < 0 then NaN else rnd (sqrt x))"
| "Math_sqrt rnd Infinity = Infinity"
| "Math_sqrt rnd a = NaN"

text \<open>\<^verbatim>\<open>a === b\<close>, \<^verbatim>\<open>a < b\<close> and \<^verbatim>\<open>a >= b\<close> on numbers: all false when an operand is \<^verbatim>\<open>NaN\<close>.\<close>

definition strictEquals :: "number \<Rightarrow> number \<Rightarrow> bool" where
  "strictEquals a b \<longleftrightarrow> a = b \<and> a \<noteq> NaN"

fun nless :: "number \<Rightarrow> number \<Rightarrow> bool" where
  "nless (Num x) (Num y) \<longleftrightarrow> x < y"
| "nless NaN b \<longleftrightarrow> False"
| "nless a NaN \<longleftrightarrow> False"
| "nless a NegInfinity \<longleftrightarrow> False"
| "nless Infinity b \<longleftrightarrow> False"
| "nless a b \<longleftrightarrow> True"

definition ngreaterEq :: "number \<Rightarrow> number \<Rightarrow> bool" where
  "ngreaterEq a b \<longleftrightarrow> a \<noteq> NaN \<and> b \<noteq> NaN \<and> \<not> nless a b"

section \<open>The similarity ranker\<close>

text \<open>
  A vector is a list of finite numbers, and a vector that may be absent (\<^verbatim>\<open>undefined\<close>) is an
  \<open>option\<close>. The \<^verbatim>\<open>for\<close> loop of \<^verbatim>\<open>cosineSimilarity\<close> is \<open>cosineLoopWith\<close>, over the two vectors
  from index \<open>i\<close> on, with \<open>(dotProduct, normA, normB)\<close> as its state. The rounding of each
  operation is the argument \<open>rnd\<close>: it is \<open>roundNum\<close> in the source.
\<close>

fun cosineLoopWith ::
  "(real \<Rightarrow> number) \<Rightarrow> real list \<Rightarrow> real list \<Rightarrow> number \<times> number \<times> number \<Rightarrow>
     number \<times> number \<times> number" where
  "cosineLoopWith rnd (a # vecA) (b # vecB) (dotProduct, normA, normB) =
     cosineLoopWith rnd vecA vecB
       (nadd rnd dotProduct (nmul rnd (Num a) (Num b)),
        nadd rnd normA (nmul rnd (Num a) (Num a)),
        nadd rnd normB (nmul rnd (Num b) (Num b)))"
| "cosineLoopWith rnd vecA vecB acc = acc"

definition cosineSimilarityWith ::
  "(real \<Rightarrow> number) \<Rightarrow> real list option \<Rightarrow> real list option \<Rightarrow> number" where
  "cosineSimilarityWith rnd vecA vecB =
     (case (vecA, vecB) of
        (Some a, Some b) \<Rightarrow>
          if length a \<noteq> length b then Num 0
          else (case cosineLoopWith rnd a b (Num 0, Num 0, Num 0) of
                  (dotProduct, normA, normB) \<Rightarrow>
                    if strictEquals normA (Num 0) \<or> strictEquals normB (Num 0) then Num 0
                    else ndiv rnd dotProduct
                           (nmul rnd (Math_sqrt rnd normA) (Math_sqrt rnd normB)))
      | _ \<Rightarrow> Num 0)"

definition cosineSimilarity :: "real list option \<Rightarrow> real list option \<Rightarrow> number" where
  "cosineSimilarity vecA vecB = cosineSimilarityWith roundNum vecA vecB"

text \<open>
  \<^verbatim>\<open>Math.max(...sims)\<close>: \<^verbatim>\<open>-Infinity\<close> on the empty array, and \<^verbatim>\<open>NaN\<close> as soon as one argument is
  \<^verbatim>\<open>NaN\<close>.
\<close>

definition nmax :: "number \<Rightarrow> number \<Rightarrow> number" where
  "nmax a b = (if a = NaN \<or> b = NaN then NaN else if nless a b then b else a)"

definition Math_max :: "number list \<Rightarrow> number" where
  "Math_max xs = fold nmax xs NegInfinity"

text \<open>
  The comparator \<^verbatim>\<open>(a, b) => b.s - a.s\<close> of the two sorts of similarities. \<open>nsub\<close> is the
  difference: of two finite doubles it has the sign of their exact difference (it is not
  rounded to a zero, and an overflow keeps the sign), and the model takes the exact
  difference. The sort reads the value of its comparator through \<open>comparatorValue\<close>: \<^verbatim>\<open>NaN\<close> as
  \<open>+0\<close>, and otherwise only the sign. With a \<^verbatim>\<open>NaN\<close> among the similarities the comparator is
  not consistent, and the order that \<^verbatim>\<open>Array.prototype.sort\<close> then leaves is up to the engine:
  the result of \<open>js_sort\<close> is then one of the permutations, and only its being a permutation
  is used.
\<close>

fun nsub :: "number \<Rightarrow> number \<Rightarrow> number" where
  "nsub (Num x) (Num y) = Num (x - y)"
| "nsub NaN b = NaN"
| "nsub a NaN = NaN"
| "nsub Infinity Infinity = NaN"
| "nsub NegInfinity NegInfinity = NaN"
| "nsub Infinity b = Infinity"
| "nsub a NegInfinity = Infinity"
| "nsub NegInfinity b = NegInfinity"
| "nsub a Infinity = NegInfinity"

fun comparatorValue :: "number \<Rightarrow> real" where
  "comparatorValue (Num x) = x"
| "comparatorValue Infinity = 1"
| "comparatorValue NegInfinity = - 1"
| "comparatorValue NaN = 0"

text \<open>The selection of askQuestion (step 4, after the embeddings): \<open>k\<close> and \<open>topIdx\<close>.\<close>

definition dynamicK :: "number \<Rightarrow> int" where
  "dynamicK maxSim =
     (if ngreaterEq maxSim (Num (fl 0.8)) then 2
      else (if nless maxSim (Num (fl 0.6)) then 6 else 4))"

definition topIdx :: "number list \<Rightarrow> nat list" where
  "topIdx sims =
     (let maxSim = Math_max sims;
          k = dynamicK maxSim
      in map snd (js_slice (js_sort (\<lambda>a b. comparatorValue (nsub (fst b) (fst a)))
                    (zip sims [0..<length sims])) 0 k))"

section \<open>The callable askQuestion\<close>

text \<open>
  What the callable reads and calls outside itself is a record of services over a world \<open>'w\<close>:
  the secret, the document store and the embedding and generation models. A call takes the
  world and returns the new one with its promise, \<open>Rejected\<close> when the call throws. The two
  fixed instruction texts of the prompt (\<^verbatim>\<open>sys\<close> and the answer format) hold glyphs outside
  Latin-1 and are fields of the record too. The field \<^verbatim>\<open>meta.timeMs\<close> of the response, a
  difference of two clock readings, is left out, and so is the glyph \<^verbatim>\<open>symbol\<close> of a flagged
  clause, which is fixed by its \<^verbatim>\<open>risk\<close>.
\<close>

datatype FunctionsErrorCode =
  Unauthenticated | InvalidArgument | FailedPrecondition | NotFound | Internal

datatype HttpsError = HttpsError FunctionsErrorCode string

datatype TaskType = RETRIEVAL_QUERY | RETRIEVAL_DOCUMENT

datatype 'a promise = Rejected | Resolved 'a

datatype Risk = HIGH | MEDIUM | LOW

record Chunk =
  chunk_id :: string
  chunk_index :: int
  chunk_text :: string
  chunk_embedding :: "real list option"

text \<open>
  A document of the \<^verbatim>\<open>chunks\<close> sub-collection: its id and the fields of \<^verbatim>\<open>d.data()\<close> that are
  read. \<open>data_embedding\<close> is \<open>None\<close> when \<^verbatim>\<open>data.embedding\<close> is not an array.
\<close>

record ChunkDoc =
  doc_id :: string
  data_index :: "int option"
  data_text :: "string option"
  data_embedding :: "real list option"

record DocumentData =
  extractedText :: "string option"

record Message =
  msg_sender :: string
  msg_text :: "string option"

record Request =
  req_auth_uid :: "string option"
  req_question :: "string option"
  req_documentId :: "string option"
  req_sessionId :: "string option"
  req_remember :: bool

record Answer =
  res_answer :: string
  res_citations :: "(string \<times> string) list"
  res_flaggedClauses :: "(string \<times> string \<times> Risk) list"
  res_followUps :: "string list"
  res_topChunkIds :: "string list"

record 'w Services =
  geminiApiKey :: string
  sysPrompt :: string
  answerFormat :: string
  getDocument :: "string \<Rightarrow> 'w \<Rightarrow> DocumentData option promise \<times> 'w"
  getChunks :: "string \<Rightarrow> 'w \<Rightarrow> ChunkDoc list promise \<times> 'w"
  getMessages :: "string \<Rightarrow> string \<Rightarrow> 'w \<Rightarrow> Message list promise \<times> 'w"
  embedContent :: "string \<Rightarrow> TaskType \<Rightarrow> 'w \<Rightarrow> real list promise \<times> 'w"
  batchEmbedContents :: "string list \<Rightarrow> 'w \<Rightarrow> real list list promise \<times> 'w"
  generateContent :: "string \<Rightarrow> 'w \<Rightarrow> string promise \<times> 'w"
  batchCommit :: "(string \<times> real list) list \<Rightarrow> 'w \<Rightarrow> unit promise \<times> 'w"

definition internalError :: HttpsError where
  "internalError =
     HttpsError Internal ''An unexpected error occurred while processing your question.''"

definition apiKeyError :: HttpsError where
  "apiKeyError =
     HttpsError FailedPrecondition
       (''Gemini API key not configured. Run '' @ [CHR 0x27] @
        ''firebase functions:secrets:set GEMINI_API_KEY'' @ [CHR 0x27] @ '' and deploy.'')"

definition notReadyError :: HttpsError where
  "notReadyError =
     HttpsError FailedPrecondition
       ''Document has no extracted text yet. Please try again later.''"

text \<open>The decimal numeral of \<^verbatim>\<open>i\<close> in a template string.\<close>

function showNat :: "nat \<Rightarrow> string" where
  "showNat n =
     (if n < 10 then [char_of (48 + n)]
      else showNat (n div 10) @ [char_of (48 + n mod 10)])"
  by pat_completeness auto
termination
  by (relation "measure id") auto

declare showNat.simps [simp del]

definition nl :: string where
  "nl = [CHR 0x0A]"

subsection \<open>Step 2: the chunks of the document\<close>

definition loadChunks :: "ChunkDoc list \<Rightarrow> DocumentData \<Rightarrow> HttpsError + Chunk list" where
  "loadChunks chunkDocs documentData =
     (if chunkDocs \<noteq> [] then
        Inr (map (\<lambda>d. \<lparr> chunk_id = doc_id d,
                        chunk_index = (case data_index d of None \<Rightarrow> 0 | Some n \<Rightarrow> n),
                        chunk_text = (case data_text d of None \<Rightarrow> [] | Some t \<Rightarrow> t),
                        chunk_embedding = data_embedding d \<rparr>) chunkDocs)
      else
        (let documentText = (case extractedText documentData of None \<Rightarrow> [] | Some t \<Rightarrow> t)
         in if documentText = [] \<or> trim documentText = [] then Inl notReadyError
            else
              (let fallback = chunkTextByWords documentText 900 120
               in Inr (map (\<lambda>(t, i). \<lparr> chunk_id = ''fallback_'' @ showNat i,
                                        chunk_index = int i,
                                        chunk_text = t,
                                        chunk_embedding = None \<rparr>)
                         (zip fallback [0..<length fallback])))))"

definition fetchChunks ::
  "'w Services \<Rightarrow> string \<Rightarrow> 'w \<Rightarrow> (HttpsError + Chunk list) \<times> 'w" where
  "fetchChunks sv documentId w =
     (case getDocument sv documentId w of
        (Rejected, w1) \<Rightarrow> (Inl internalError, w1)
      | (Resolved None, w1) \<Rightarrow> (Inl (HttpsError NotFound ''Document not found''), w1)
      | (Resolved (Some documentData), w1) \<Rightarrow>
          (case getChunks sv documentId w1 of
             (Rejected, w2) \<Rightarrow> (Inl internalError, w2)
           | (Resolved chunkDocs, w2) \<Rightarrow> (loadChunks chunkDocs documentData, w2)))"

subsection \<open>Step 3: conversation memory\<close>

definition turnOf :: "Message \<Rightarrow> string" where
  "turnOf m =
     (if msg_sender m = ''user'' then ''User'' else ''Assistant'') @ '': '' @
     (case msg_text m of None \<Rightarrow> [] | Some t \<Rightarrow> t)"

definition sumPrompt :: "string \<Rightarrow> string" where
  "sumPrompt historyToSummarize =
     ''Summarize the following conversation history in 5-8 concise bullet points, capturing user intents and constraints.''
     @ nl @ nl @ historyToSummarize"

text \<open>The result is the pair \<open>(memoryContext, summaryText)\<close>.\<close>

definition conversationMemory ::
  "'w Services \<Rightarrow> string \<Rightarrow> string option \<Rightarrow> bool \<Rightarrow> 'w \<Rightarrow> (string \<times> string) promise \<times> 'w" where
  "conversationMemory sv userId sessionId remember w =
     (case sessionId of
        None \<Rightarrow> (Resolved ([], []), w)
      | Some sid \<Rightarrow>
          if \<not> (remember \<and> sid \<noteq> []) then (Resolved ([], []), w)
          else
            (case getMessages sv userId sid w of
               (Rejected, w1) \<Rightarrow> (Rejected, w1)
             | (Resolved msgs, w1) \<Rightarrow>
                 (let turns = map turnOf msgs;
                      memoryContext =
                        (if length turns > 0
                         then join nl (js_slice turns (- 3) (int (length turns))) else [])
                  in if length turns > 6 then
                       (let historyToSummarize = join nl (js_slice turns 0 (- 3))
                        in case generateContent sv (sumPrompt historyToSummarize) w1 of
                             (Rejected, w2) \<Rightarrow> (Resolved (memoryContext, []), w2)
                           | (Resolved summaryText, w2) \<Rightarrow>
                               (Resolved (memoryContext, summaryText), w2))
                     else (Resolved (memoryContext, []), w1))))"

subsection \<open>Step 4: prefilter, embeddings, backfill and selection\<close>

text \<open>\<^verbatim>\<open>xs?.[i]\<close> on an array of vectors that may be absent: \<^verbatim>\<open>undefined\<close> beyond the end.\<close>

definition elementAt :: "'a option list \<Rightarrow> nat \<Rightarrow> 'a option" where
  "elementAt xs i = (if i < length xs then xs ! i else None)"

text \<open>
  \<^verbatim>\<open>findRelevantChunks\<close>. \<open>missingIndices\<close> and the \<open>Map\<close> \<open>computedMap\<close> are a list of indices
  and a finite map; the vectors of the reply are paired with the missing indices by position.
\<close>

definition findRelevantChunks ::
  "'w Services \<Rightarrow> string \<Rightarrow> string list \<Rightarrow> real list option list \<Rightarrow> 'w \<Rightarrow>
     string list promise \<times> 'w" where
  "findRelevantChunks sv question chunks knownEmbeddings w =
     (case embedContent sv question RETRIEVAL_QUERY w of
        (Rejected, w1) \<Rightarrow> (Rejected, w1)
      | (Resolved qvec, w1) \<Rightarrow>
          (let missingIndices =
                 filter (\<lambda>i. case elementAt knownEmbeddings i of
                                None \<Rightarrow> True
                              | Some known \<Rightarrow> length known \<noteq> length qvec)
                   [0..<length chunks];
               finish = (\<lambda>computedMap :: nat \<rightharpoonup> real list.
                 (let embeddings =
                        map (\<lambda>i. case elementAt knownEmbeddings i of
                                    Some known \<Rightarrow> Some known
                                  | None \<Rightarrow> computedMap i)
                          [0..<length chunks];
                      similarities = map (\<lambda>e. cosineSimilarity (Some qvec) e) embeddings;
                      topIndices =
                        map snd (js_slice
                          (js_sort (\<lambda>a b. comparatorValue (nsub (fst b) (fst a)))
                             (zip similarities [0..<length similarities])) 0 4)
                  in map (\<lambda>index. chunks ! index) topIndices))
           in if length missingIndices > 0 then
                (case batchEmbedContents sv (map (\<lambda>i. chunks ! i) missingIndices) w1 of
                   (Rejected, w2) \<Rightarrow> (Rejected, w2)
                 | (Resolved embeddings, w2) \<Rightarrow>
                     (Resolved (finish (map_of (zip missingIndices embeddings))), w2))
              else (Resolved (finish Map.empty), w1)))"

text \<open>
  The loop that makes sure every filtered chunk has a vector of the dimension of the question's
  vector, over the chunks of \<open>filtered\<close> from index \<open>i\<close> on, with the arrays
  \<open>filteredComputed\<close> and \<open>toBackfill\<close> as its state. Where \<open>needReembed\<close> is false the stored
  vector \<open>known\<close> is present, and it is the one pushed.
\<close>

fun ensureEmbeddings ::
  "'w Services \<Rightarrow> nat \<Rightarrow> Chunk list \<Rightarrow> real list list \<Rightarrow> (string \<times> real list) list \<Rightarrow> 'w \<Rightarrow>
     (real list list \<times> (string \<times> real list) list) promise \<times> 'w" where
  "ensureEmbeddings sv targetDim [] filteredComputed toBackfill w =
     (Resolved (filteredComputed, toBackfill), w)"
| "ensureEmbeddings sv targetDim (c # filtered) filteredComputed toBackfill w =
     (let known = chunk_embedding c;
          needReembed = (case known of None \<Rightarrow> True | Some v \<Rightarrow> length v \<noteq> targetDim)
      in if \<not> needReembed then
           ensureEmbeddings sv targetDim filtered
             (filteredComputed @ [case known of Some v \<Rightarrow> v | None \<Rightarrow> []]) toBackfill w
         else
           (case embedContent sv (chunk_text c) RETRIEVAL_DOCUMENT w of
              (Rejected, w1) \<Rightarrow> (Rejected, w1)
            | (Resolved vals, w1) \<Rightarrow>
                (let cid = chunk_id c
                 in ensureEmbeddings sv targetDim filtered (filteredComputed @ [vals])
                      (if \<not> startsWith cid ''fallback_''
                       then toBackfill @ [(cid, vals)] else toBackfill) w1)))"

text \<open>The write of the new vectors: a rejected commit is caught and logged.\<close>

definition backfill :: "'w Services \<Rightarrow> (string \<times> real list) list \<Rightarrow> 'w \<Rightarrow> 'w" where
  "backfill sv toBackfill w =
     (if length toBackfill > 0 then
        (case batchCommit sv toBackfill w of
           (Rejected, w1) \<Rightarrow> w1
         | (Resolved u, w1) \<Rightarrow> w1)
      else w)"

text \<open>
  From the prefilter to the selection. The result is \<open>topChunks\<close>. The indices that
  \<open>prefilterChunks\<close> and \<open>topIdx\<close> return are below the length of the array they index.
\<close>

definition retrieveTopChunks ::
  "'w Services \<Rightarrow> string \<Rightarrow> Chunk list \<Rightarrow> 'w \<Rightarrow> Chunk list promise \<times> 'w" where
  "retrieveTopChunks sv question chunks w =
     (let prefilteredIdx = prefilterChunks question (map chunk_text chunks) 60;
          filtered = map (\<lambda>i. chunks ! i) prefilteredIdx;
          filteredTexts = map chunk_text filtered;
          filteredEmbeddings = map chunk_embedding filtered
      in case findRelevantChunks sv question filteredTexts filteredEmbeddings w of
           (Rejected, w1) \<Rightarrow> (Rejected, w1)
         | (Resolved relevant, w1) \<Rightarrow>
             (case embedContent sv question RETRIEVAL_QUERY w1 of
                (Rejected, w2) \<Rightarrow> (Rejected, w2)
              | (Resolved qEmbedding, w2) \<Rightarrow>
                  (let targetDim = length qEmbedding
                   in case ensureEmbeddings sv targetDim filtered [] [] w2 of
                        (Rejected, w3) \<Rightarrow> (Rejected, w3)
                      | (Resolved (filteredComputed, toBackfill), w3) \<Rightarrow>
                          (let w4 = backfill sv toBackfill w3;
                               sims = map (\<lambda>e. cosineSimilarity (Some qEmbedding) (Some e))
                                        filteredComputed;
                               topChunks = map (\<lambda>i. filtered ! i) (topIdx sims)
                           in (Resolved topChunks, w4)))))"

subsection \<open>Steps 5 and 6: the prompt, the answer and the response\<close>

definition contextBlock :: "string \<Rightarrow> string \<Rightarrow> string" where
  "contextBlock summaryText memoryContext =
     (if summaryText \<noteq> []
      then nl @ ''Summary of earlier conversation: '' @ nl @ summaryText @ nl else []) @
     (if memoryContext \<noteq> []
      then nl @ ''Recent conversation (last 3 turns):'' @ nl @ memoryContext @ nl else [])"

definition chunkBlock :: "Chunk list \<Rightarrow> string" where
  "chunkBlock topChunks =
     join (nl @ nl)
       (map (\<lambda>c. ''[[chunkId: '' @ chunk_id c @ '']]'' @ nl @ chunk_text c) topChunks)"

definition plainPrompt :: "'w Services \<Rightarrow> string \<Rightarrow> string \<Rightarrow> string \<Rightarrow> string" where
  "plainPrompt sv context question chunkText =
     sysPrompt sv @ nl @ nl @ context @ nl @ ''Question: '' @ question @ nl @ nl @
     ''DOCUMENT CHUNKS:'' @ nl @ chunkText @ nl @ nl @ answerFormat sv"

definition fuPrompt :: "string \<Rightarrow> string \<Rightarrow> string" where
  "fuPrompt question answer =
     ''Given the user'' @ [CHR 0x27] @ ''s question and the answer, propose 2 concise follow-up questions.''
     @ nl @ ''Question: '' @ question @ nl @ ''Answer: '' @ answer @ nl @
     ''Return as a simple list.''"

definition detectRiskyClauses :: "Chunk list \<Rightarrow> (string \<times> string \<times> Risk) list" where
  "detectRiskyClauses chunks =
     (let HIGHk = [''termination'', ''liability'', ''penalties'', ''arbitration''];
          MEDk = [''fees'', ''renewal'', ''data sharing''];
          LOWk = [''definitions'', ''general information'', ''general info''];
          out = concat (map (\<lambda>c.
                  (let t = toLowerCase (chunk_text c);
                       matched =
                         (if list_ex (\<lambda>k. includesStr t k) HIGHk then Some HIGH
                          else if list_ex (\<lambda>k. includesStr t k) MEDk then Some MEDIUM
                          else if list_ex (\<lambda>k. includesStr t k) LOWk then Some LOW
                          else None)
                   in case matched of
                        Some r \<Rightarrow> [(chunk_id c, js_slice (chunk_text c) 0 400, r)]
                      | None \<Rightarrow> [])) chunks)
      in js_slice out 0 8)"

text \<open>
  The follow-up questions read off the model's reply: the lines, each without its leading run
  of \<^verbatim>\<open>[-*\d.\s]\<close> and trimmed, the empty ones dropped, the first two kept.
\<close>

definition parseFollowUps :: "string \<Rightarrow> string list" where
  "parseFollowUps fuText =
     js_slice
       (filterBoolean
          (map (\<lambda>l. trim (dropWhile
                  (\<lambda>c. c \<in> set ''-*.'' \<or> (48 \<le> (of_char c :: nat) \<and> (of_char c :: nat) \<le> 57)
                        \<or> isWhiteSpace c) l))
             (split_runs (\<lambda>c. c = CHR 0x0A) fuText))) 0 2"

definition answerFromChunks ::
  "'w Services \<Rightarrow> string \<Rightarrow> string \<Rightarrow> string \<Rightarrow> Chunk list \<Rightarrow> 'w \<Rightarrow> Answer promise \<times> 'w" where
  "answerFromChunks sv question memoryContext summaryText topChunks w =
     (case generateContent sv
             (plainPrompt sv (contextBlock summaryText memoryContext) question
                (chunkBlock topChunks)) w of
        (Rejected, w1) \<Rightarrow> (Rejected, w1)
      | (Resolved answer, w1) \<Rightarrow>
          (let citations = map (\<lambda>c. (chunk_id c, js_slice (chunk_text c) 0 200)) topChunks;
               flaggedClauses = detectRiskyClauses topChunks;
               respond = (\<lambda>followUps.
                 \<lparr> res_answer = answer, res_citations = citations,
                   res_flaggedClauses = flaggedClauses, res_followUps = followUps,
                   res_topChunkIds = map chunk_id topChunks \<rparr>)
           in case generateContent sv (fuPrompt question answer) w1 of
                (Rejected, w2) \<Rightarrow> (Resolved (respond []), w2)
              | (Resolved fuText, w2) \<Rightarrow> (Resolved (respond (parseFollowUps fuText)), w2)))"

subsection \<open>The callable\<close>

text \<open>
  The body of the \<^verbatim>\<open>try\<close> block. Whatever is thrown there that is not an \<open>HttpsError\<close>
  leaves the callable as the error \<open>internal\<close>.
\<close>

definition tryBlock ::
  "'w Services \<Rightarrow> string \<Rightarrow> string \<Rightarrow> string \<Rightarrow> string option \<Rightarrow> bool \<Rightarrow> 'w \<Rightarrow>
     (HttpsError + Answer) \<times> 'w" where
  "tryBlock sv userId question documentId sessionId remember w =
     (case fetchChunks sv documentId w of
        (Inl e, w1) \<Rightarrow> (Inl e, w1)
      | (Inr chunks, w1) \<Rightarrow>
          (case conversationMemory sv userId sessionId remember w1 of
             (Rejected, w2) \<Rightarrow> (Inl internalError, w2)
           | (Resolved (memoryContext, summaryText), w2) \<Rightarrow>
               (case retrieveTopChunks sv question chunks w2 of
                  (Rejected, w3) \<Rightarrow> (Inl internalError, w3)
                | (Resolved topChunks, w3) \<Rightarrow>
                    (case answerFromChunks sv question memoryContext summaryText topChunks w3 of
                       (Rejected, w4) \<Rightarrow> (Inl internalError, w4)
                     | (Resolved r, w4) \<Rightarrow> (Inr r, w4)))))"

definition askQuestion :: "'w Services \<Rightarrow> Request \<Rightarrow> 'w \<Rightarrow> (HttpsError + Answer) \<times> 'w" where
  "askQuestion sv request w =
     (case req_auth_uid request of
        None \<Rightarrow> (Inl (HttpsError Unauthenticated ''You must be signed in to ask a question.''), w)
      | Some userId \<Rightarrow>
          if userId = [] then
            (Inl (HttpsError Unauthenticated ''You must be signed in to ask a question.''), w)
          else
            (case req_question request of
               None \<Rightarrow> (Inl (HttpsError InvalidArgument ''Question is required.''), w)
             | Some question \<Rightarrow>
                 if question = [] \<or> trim question = [] then
                   (Inl (HttpsError InvalidArgument ''Question is required.''), w)
                 else
                   (case req_documentId request of
                      None \<Rightarrow> (Inl (HttpsError InvalidArgument ''documentId is required.''), w)
                    | Some documentId \<Rightarrow>
                        if documentId = [] \<or> trim documentId = [] then
                          (Inl (HttpsError InvalidArgument ''documentId is required.''), w)
                        else if geminiApiKey sv = [] then (Inl apiKeyError, w)
                        else tryBlock sv userId question documentId
                               (req_sessionId request) (req_remember request) w)))"

section \<open>Notions the statements use\<close>

text \<open>The words of a text: the array \<^verbatim>\<open>words\<close> of \<^verbatim>\<open>chunkTextByWords\<close>.\<close>

definition wordsOf :: "string \<Rightarrow> string list" where
  "wordsOf text = filterBoolean (split_runs isWhiteSpace text)"

text \<open>The text of a window: \<^verbatim>\<open>words.slice(start, end).join(' ')\<close>.\<close>

definition windowText :: "string list \<Rightarrow> int \<times> int \<Rightarrow> string" where
  "windowText words w = join '' '' (js_slice words (fst w) (snd w))"

text \<open>
  The order a stable descending sort leaves: the greater key first and, among equal keys, the
  element that came first.
\<close>

definition before :: "('a \<Rightarrow> 'b::linordered_idom) \<Rightarrow> ('a \<Rightarrow> nat) \<Rightarrow> 'a \<Rightarrow> 'a \<Rightarrow> bool" where
  "before key ix a b \<longleftrightarrow> key a > key b \<or> (key a = key b \<and> ix a < ix b)"

text \<open>The array \<^verbatim>\<open>scored\<close> of \<^verbatim>\<open>prefilterChunks\<close> after its sort.\<close>

definition sortedScored :: "string list \<Rightarrow> string list \<Rightarrow> (nat \<times> int) list" where
  "sortedScored terms chunks = js_sort (\<lambda>a b. snd b - snd a) (scoredChunks terms chunks)"

text \<open>The similarities paired with their indices, after the sort of the selection.\<close>

definition rankedSims :: "number list \<Rightarrow> (number \<times> nat) list" where
  "rankedSims sims =
     js_sort (\<lambda>a b. comparatorValue (nsub (fst b) (fst a))) (zip sims [0..<length sims])"

text \<open>
  The values that a squared norm takes in the loop of \<^verbatim>\<open>cosineSimilarity\<close>: \<^verbatim>\<open>Infinity\<close>, a zero,
  or a finite double that is at least the least positive double.
\<close>

definition normValue :: "number \<Rightarrow> bool" where
  "normValue m \<longleftrightarrow>
     (case m of Num x \<Rightarrow> x = 0 \<or> pow2 (- 1074) \<le> x | Infinity \<Rightarrow> True | _ \<Rightarrow> False)"

text \<open>
  Whether the loop of step 4 requests a new vector for a chunk, and the entries it then puts
  on \<open>toBackfill\<close>: the new vectors of the chunks whose identifier does not start with
  \<^verbatim>\<open>fallback_\<close>.
\<close>

definition needReembed :: "nat \<Rightarrow> Chunk \<Rightarrow> bool" where
  "needReembed targetDim c =
     (case chunk_embedding c of None \<Rightarrow> True | Some v \<Rightarrow> length v \<noteq> targetDim)"

definition backfillItems :: "nat \<Rightarrow> Chunk list \<Rightarrow> real list list \<Rightarrow> (string \<times> real list) list" where
  "backfillItems targetDim filtered filteredComputed =
     map (\<lambda>(c, v). (chunk_id c, v))
       (filter (\<lambda>(c, v). needReembed targetDim c \<and> \<not> startsWith (chunk_id c) ''fallback_'')
          (zip filtered filteredComputed))"



section \<open>A small instance\<close>

text \<open>
  Services over a world that counts the commits: one document whose extracted text and stored
  chunk records are given, an embedding model that answers every text with the vector
  \<open>(1, 0)\<close>, a generation model with one fixed reply, and a commit that resolves or rejects
  as told. With them a request, two stored chunk records, the chunks read from them, and the
  response the callable gives.
\<close>

definition stubServices :: "string option \<Rightarrow> ChunkDoc list \<Rightarrow> bool \<Rightarrow> nat Services" where
  "stubServices docText chunkDocs commitOk =
     \<lparr> geminiApiKey = ''key'', sysPrompt = ''sys'', answerFormat = ''format'',
       getDocument = (\<lambda>documentId w. (Resolved (Some \<lparr> extractedText = docText \<rparr>), w)),
       getChunks = (\<lambda>documentId w. (Resolved chunkDocs, w)),
       getMessages = (\<lambda>userId sessionId w. (Resolved [], w)),
       embedContent = (\<lambda>t taskType w. (Resolved [1, 0], w)),
       batchEmbedContents = (\<lambda>ts w. (Resolved (map (\<lambda>t. [1, 0]) ts), w)),
       generateContent = (\<lambda>prompt w. (Resolved ''1. Why? 2. When?'', w)),
       batchCommit = (\<lambda>items w. (if commitOk then Resolved () else Rejected, Suc w)) \<rparr>"

definition stubRequest :: Request where
  "stubRequest =
     \<lparr> req_auth_uid = Some ''u1'', req_question = Some ''Late fees?'',
       req_documentId = Some ''d1'', req_sessionId = None, req_remember = False \<rparr>"

definition stubChunkDocs :: "ChunkDoc list" where
  "stubChunkDocs =
     [\<lparr> doc_id = ''c0'', data_index = Some 0, data_text = Some ''Rent is due'',
        data_embedding = None \<rparr>,
      \<lparr> doc_id = ''c1'', data_index = Some 1, data_text = Some ''Late fees apply'',
        data_embedding = Some [0, 1] \<rparr>]"

definition stubChunks :: "Chunk list" where
  "stubChunks =
     [\<lparr> chunk_id = ''c0'', chunk_index = 0, chunk_text = ''Rent is due'', chunk_embedding = None \<rparr>,
      \<lparr> chunk_id = ''c1'', chunk_index = 1, chunk_text = ''Late fees apply'',
        chunk_embedding = Some [0, 1] \<rparr>]"

definition stubAnswer :: Answer where
  "stubAnswer =
     \<lparr> res_answer = ''1. Why? 2. When?'',
       res_citations = [(''c0'', ''Rent is due''), (''c1'', ''Late fees apply'')],
       res_flaggedClauses = [(''c1'', ''Late fees apply'', MEDIUM)],
       res_followUps = [''Why? 2. When?''],
       res_topChunkIds = [''c0'', ''c1''] \<rparr>"

section \<open>Properties of the chunker\<close>

lemma chunkLoop_upload_eq:
  "chunkLoop_upload words targetWords overlapWords start chunks =
   chunkLoop words targetWords overlapWords start chunks"
proof (induction words targetWords overlapWords start chunks rule: chunkLoop.induct)
  case (1 words targetWords overlapWords start chunks)
  show ?case
  proof (cases "start < int (length words)")
    case False
    then show ?thesis
      by (simp add: chunkLoop_upload.simps [of words] chunkLoop.simps [of words])
  next
    case True
    show ?thesis
      apply (subst chunkLoop_upload.simps)
      apply (subst chunkLoop.simps)
      apply (simp only: Let_def True if_True)
      apply (rule if_cong [OF refl refl])
      apply (fold stepWords_def)
      apply (rule 1 [OF True refl refl refl])
      apply assumption
      done
  qed
qed

lemma split_runs_nonempty: "split_runs sep s \<noteq> []"
proof (cases s)
  case Nil
  then show ?thesis by simp
next
  case (Cons c cs)
  then show ?thesis by (cases "split_runs sep cs") simp_all
qed

lemma split_runs_sep_free:
  "\<forall>w \<in> set (split_runs sep s). \<forall>c \<in> set w. \<not> sep c"
proof (induction sep s rule: split_runs.induct)
  case (1 sep)
  then show ?case by simp
next
  case (2 sep d cs)
  show ?case
  proof (cases "sep d")
    case True
    with 2 show ?thesis by simp
  next
    case False
    obtain v vs where v: "split_runs sep cs = v # vs"
      using split_runs_nonempty [of sep cs] by (cases "split_runs sep cs") auto
    from 2(2) [OF False] v have "\<forall>c \<in> set v. \<not> sep c" "\<forall>w \<in> set vs. \<forall>c \<in> set w. \<not> sep c"
      by simp_all
    with v False show ?thesis by simp
  qed
qed

lemma trim_Nil_iff: "trim s = [] \<longleftrightarrow> (\<forall>c \<in> set s. isWhiteSpace c)"
proof
  assume "trim s = []"
  then have a: "\<forall>x \<in> set (dropWhile isWhiteSpace s). isWhiteSpace x"
    by (simp add: trim_def)
  have "dropWhile isWhiteSpace s = []"
  proof (rule ccontr)
    assume n: "dropWhile isWhiteSpace s \<noteq> []"
    then have "\<not> isWhiteSpace (hd (dropWhile isWhiteSpace s))" by (rule hd_dropWhile)
    moreover from n have "hd (dropWhile isWhiteSpace s) \<in> set (dropWhile isWhiteSpace s)"
      by (rule hd_in_set)
    ultimately show False using a by blast
  qed
  then show "\<forall>c \<in> set s. isWhiteSpace c" by simp
next
  assume "\<forall>c \<in> set s. isWhiteSpace c"
  then have "\<forall>x \<in> set (dropWhile isWhiteSpace s). isWhiteSpace x"
    by (meson set_dropWhileD)
  then show "trim s = []" by (simp add: trim_def)
qed

lemma words_all_sep:
  "(\<forall>c \<in> set s. sep c) \<Longrightarrow> filterBoolean (split_runs sep s) = []"
proof (cases s)
  case Nil
  then show ?thesis by (simp add: filterBoolean_def)
next
  case (Cons c cs)
  assume "\<forall>c \<in> set s. sep c"
  with Cons have "sep c" "dropWhile sep cs = []" by simp_all
  with Cons show ?thesis by (simp only: filterBoolean_def split_runs.simps if_True) simp
qed

lemma words_some_word:
  "\<exists>c \<in> set s. \<not> sep c \<Longrightarrow> filterBoolean (split_runs sep s) \<noteq> []"
proof (induction sep s rule: split_runs.induct)
  case (1 sep)
  then show ?case by simp
next
  case (2 sep c cs)
  show ?case
  proof (cases "sep c")
    case True
    with 2(3) obtain x where x: "x \<in> set cs" "\<not> sep x" by auto
    then have n: "dropWhile sep cs \<noteq> []" by auto
    then have "\<not> sep (hd (dropWhile sep cs))" by (rule hd_dropWhile)
    with n have "\<exists>c \<in> set (dropWhile sep cs). \<not> sep c"
      using hd_in_set by blast
    from 2(1) [OF True this] True show ?thesis by (simp add: filterBoolean_def)
  next
    case False
    obtain v vs where v: "split_runs sep cs = v # vs"
      using split_runs_nonempty [of sep cs] by (cases "split_runs sep cs") auto
    with False show ?thesis by (simp add: filterBoolean_def)
  qed
qed

lemma words_Nil_iff:
  "filterBoolean (split_runs isWhiteSpace s) = [] \<longleftrightarrow> trim s = []"
  using words_all_sep [of s isWhiteSpace] words_some_word [of s isWhiteSpace] trim_Nil_iff [of s]
  by blast

lemma words_wf:
  "w \<in> set (filterBoolean (split_runs isWhiteSpace s)) \<Longrightarrow>
   w \<noteq> [] \<and> (\<forall>c \<in> set w. \<not> isWhiteSpace c)"
  using split_runs_sep_free [of isWhiteSpace s] by (auto simp: filterBoolean_def)

lemma set_hd_join: "ws \<noteq> [] \<Longrightarrow> set (hd ws) \<subseteq> set (join sep ws)"
  by (cases "(sep, ws)" rule: join.cases) auto

lemma trim_join_nonblank:
  assumes "ws \<noteq> []" and "\<forall>w \<in> set ws. w \<noteq> [] \<and> (\<forall>c \<in> set w. \<not> isWhiteSpace c)"
  shows "trim (join sep ws) \<noteq> []"
proof -
  from assms(1) have "hd ws \<in> set ws" by simp
  with assms(2) have "hd ws \<noteq> []" "\<forall>c \<in> set (hd ws). \<not> isWhiteSpace c" by blast+
  then obtain c where "c \<in> set (hd ws)" "\<not> isWhiteSpace c"
    by (cases "hd ws") auto
  with set_hd_join [OF assms(1), of sep] show ?thesis
    by (auto simp: trim_Nil_iff)
qed

lemma js_slice_nonneg:
  "0 \<le> s \<Longrightarrow> s \<le> f \<Longrightarrow> f \<le> int (length xs) \<Longrightarrow>
   js_slice xs s f = take (nat (f - s)) (drop (nat s) xs)"
  by (simp add: js_slice_def Let_def min_def)

lemma js_slice_to_end:
  "0 \<le> s \<Longrightarrow> s \<le> int (length xs) \<Longrightarrow> js_slice xs s (int (length xs)) = drop (nat s) xs"
  by (simp add: js_slice_nonneg)

lemma js_slice_set: "set (js_slice xs s f) \<subseteq> set xs"
  by (auto simp: js_slice_def Let_def dest: in_set_takeD in_set_dropD)

lemma chunkLoop_windows:
  "chunkLoop words targetWords overlapWords start chunks =
   chunks @ filter (\<lambda>s. trim s \<noteq> [])
              (map (windowText words) (chunkWindows (length words) targetWords overlapWords start))"
proof (induction words targetWords overlapWords start chunks rule: chunkLoop.induct)
  case (1 words targetWords overlapWords start chunks)
  show ?case
  proof (cases "start < int (length words)")
    case False
    then show ?thesis
      by (simp add: chunkLoop.simps [of words] chunkWindows.simps [of "length words"])
  next
    case True
    define fin where "fin = min (int (length words)) (start + targetWords)"
    define slice where "slice = join '' '' (js_slice words start fin)"
    define chunks' where "chunks' = (if trim slice \<noteq> [] then chunks @ [slice] else chunks)"
    have wt: "windowText words (start, fin) = slice"
      by (simp add: windowText_def slice_def)
    show ?thesis
    proof (cases "fin = int (length words)")
      case True
      with \<open>start < int (length words)\<close> show ?thesis
        by (simp add: chunkLoop.simps [of words _ _ start] chunkWindows.simps [of "length words" _ _ start]
            Let_def windowText_def fin_def [symmetric])
    next
      case False
      from 1 [OF True fin_def slice_def chunks'_def False]
      have "chunkLoop words targetWords overlapWords (start + stepWords targetWords overlapWords) chunks' =
            chunks' @ filter (\<lambda>s. trim s \<noteq> [])
              (map (windowText words) (chunkWindows (length words) targetWords overlapWords
                 (start + stepWords targetWords overlapWords)))" .
      with True False wt show ?thesis
        by (simp add: chunkLoop.simps [of words _ _ start] chunkWindows.simps [of "length words" _ _ start]
            Let_def fin_def [symmetric] slice_def [symmetric] chunks'_def [symmetric])
           (auto simp: chunks'_def split: if_splits)
    qed
  qed
qed

lemma stepWords_le: "1 \<le> tw \<Longrightarrow> stepWords tw ow \<le> tw"
  by (simp add: stepWords_def)

lemma stepWords_pos: "1 \<le> stepWords tw ow"
  by (simp add: stepWords_def)

lemma chunkWindows_pos:
  "1 \<le> tw \<Longrightarrow> 0 \<le> start \<Longrightarrow> start < int n \<Longrightarrow>
   chunkWindows n tw ow start \<noteq> [] \<and>
   snd (last (chunkWindows n tw ow start)) = int n \<and>
   (\<forall>w \<in> set (chunkWindows n tw ow start). start \<le> fst w \<and> fst w < snd w \<and> snd w \<le> int n) \<and>
   (\<forall>w \<in> set (butlast (chunkWindows n tw ow start)). snd w < int n)"
proof (induction n tw ow start rule: chunkWindows.induct)
  case (1 n tw ow start)
  define fin where "fin = min (int n) (start + tw)"
  show ?case
  proof (cases "fin = int n")
    case True
    with 1(2-) show ?thesis
      by (simp add: chunkWindows.simps [of n _ _ start] Let_def fin_def [symmetric])
  next
    case False
    then have f: "fin = start + tw" "fin < int n" by (simp_all add: fin_def min_def split: if_splits)
    have s: "start + stepWords tw ow < int n" "0 \<le> start + stepWords tw ow"
      using f stepWords_le [OF 1(2), of ow] stepWords_pos [of tw ow] 1(3) by simp_all
    note IH = 1(1) [OF 1(4) fin_def False 1(2) s(2) s(1)]
    have e: "chunkWindows n tw ow start =
             (start, fin) # chunkWindows n tw ow (start + stepWords tw ow)"
      using False 1(4) by (simp add: chunkWindows.simps [of n _ _ start] Let_def fin_def [symmetric])
    show ?thesis
      unfolding e using IH f 1(2) stepWords_pos [of tw ow] by (auto simp: fin_def)
  qed
qed

lemma wordsOf_wf:
  "\<forall>w \<in> set (wordsOf s). w \<noteq> [] \<and> (\<forall>c \<in> set w. \<not> isWhiteSpace c)"
  using words_wf by (auto simp: wordsOf_def)

lemma wordsOf_Nil [simp]: "wordsOf [] = []"
  by (simp add: wordsOf_def filterBoolean_def)

lemma chunkTextByWords_windows:
  "chunkTextByWords text tw ow =
   filter (\<lambda>s. trim s \<noteq> [])
     (map (windowText (wordsOf text)) (chunkWindows (length (wordsOf text)) tw ow 0))"
proof (cases "wordsOf text = []")
  case True
  then show ?thesis
    by (simp add: chunkTextByWords_def wordsOf_def [symmetric] chunkWindows.simps [of 0])
next
  case False
  then have "text \<noteq> []" by auto
  with False show ?thesis
    by (simp add: chunkTextByWords_def wordsOf_def [symmetric] chunkLoop_windows Let_def)
qed

lemma windowText_nonblank:
  assumes "0 \<le> fst w" "fst w < snd w" "snd w \<le> int (length (wordsOf text))"
  shows "trim (windowText (wordsOf text) w) \<noteq> []"
proof -
  let ?sl = "js_slice (wordsOf text) (fst w) (snd w)"
  have "?sl = take (nat (snd w - fst w)) (drop (nat (fst w)) (wordsOf text))"
    using assms by (simp add: js_slice_nonneg)
  with assms have "?sl \<noteq> []" by simp
  moreover have "\<forall>x \<in> set ?sl. x \<noteq> [] \<and> (\<forall>c \<in> set x. \<not> isWhiteSpace c)"
    using js_slice_set [of "wordsOf text" "fst w" "snd w"] wordsOf_wf [of "text"] by blast
  ultimately show ?thesis
    unfolding windowText_def by (rule trim_join_nonblank)
qed

lemma chunkTextByWords_pos:
  assumes "wordsOf text \<noteq> []" "1 \<le> tw"
  shows "chunkTextByWords text tw ow =
         map (windowText (wordsOf text)) (chunkWindows (length (wordsOf text)) tw ow 0)"
proof -
  from assms have "0 < int (length (wordsOf text))" by simp
  from chunkWindows_pos [OF assms(2) order_refl this, of ow]
  have "\<forall>w \<in> set (chunkWindows (length (wordsOf text)) tw ow 0).
          0 \<le> fst w \<and> fst w < snd w \<and> snd w \<le> int (length (wordsOf text))"
    by blast
  then have "\<forall>w \<in> set (chunkWindows (length (wordsOf text)) tw ow 0).
          trim (windowText (wordsOf text) w) \<noteq> []"
    using windowText_nonblank by blast
  then show ?thesis
    by (simp add: chunkTextByWords_windows filter_map comp_def)
qed

lemma chunkWindows_1000: "chunkWindows 1000 900 120 0 = [(0, 900), (780, 1000)]"
  by (simp add: chunkWindows.simps stepWords_def)

lemma chunk_1000:
  assumes "length (wordsOf text) = 1000"
  shows "chunkTextByWords text 900 120 =
         [join '' '' (take 900 (wordsOf text)), join '' '' (drop 780 (wordsOf text))]"
proof -
  from assms have "wordsOf text \<noteq> []" by auto
  then have "chunkTextByWords text 900 120 =
      map (windowText (wordsOf text)) (chunkWindows (length (wordsOf text)) 900 120 0)"
    by (rule chunkTextByWords_pos) simp
  then show ?thesis
    using assms by (simp add: chunkWindows_1000 windowText_def js_slice_nonneg)
qed

lemma chunk_final:
  assumes "wordsOf text \<noteq> []" "1 \<le> tw"
  shows "\<exists>s < length (wordsOf text).
           last (chunkTextByWords text tw ow) = join '' '' (drop s (wordsOf text))"
proof -
  let ?ws = "wordsOf text"
  let ?W = "chunkWindows (length ?ws) tw ow 0"
  from assms have "0 < int (length ?ws)" by simp
  note W = chunkWindows_pos [OF assms(2) order_refl this, of ow]
  from W have l: "last ?W \<in> set ?W" by simp
  with W have "0 \<le> fst (last ?W) \<and> fst (last ?W) < snd (last ?W)" by blast
  with W have b: "0 \<le> fst (last ?W)" "fst (last ?W) < int (length ?ws)" "snd (last ?W) = int (length ?ws)"
    by simp_all
  have "last (chunkTextByWords text tw ow) = windowText ?ws (last ?W)"
    using W by (simp add: chunkTextByWords_pos [OF assms] last_map)
  also have "\<dots> = join '' '' (drop (nat (fst (last ?W))) ?ws)"
    using b by (simp add: windowText_def js_slice_to_end)
  finally show ?thesis using b
    by (intro exI [of _ "nat (fst (last ?W))"]) simp
qed

lemma isWhiteSpace_word:
  "\<not> isWhiteSpace CHR ''w''" "\<not> isWhiteSpace CHR ''o''" "\<not> isWhiteSpace CHR ''r''"
  "\<not> isWhiteSpace CHR ''d''" "isWhiteSpace CHR '' ''"
  by (simp_all add: isWhiteSpace_def)

lemma dropWhile_word_replicate:
  "dropWhile isWhiteSpace (concat (replicate n ''word '')) = concat (replicate n ''word '')"
  by (cases n) (simp_all add: isWhiteSpace_word)

lemma split_words_replicate:
  "split_runs isWhiteSpace (concat (replicate n ''word '')) = replicate n ''word'' @ [[]]"
  by (induction n) (simp_all add: isWhiteSpace_word dropWhile_word_replicate)

lemma wordsOf_replicate: "wordsOf (concat (replicate n ''word '')) = replicate n ''word''"
  by (simp add: wordsOf_def split_words_replicate filterBoolean_def)

lemma split_runs_append_word:
  "\<forall>c \<in> set w. \<not> sep c \<Longrightarrow>
   split_runs sep (w @ r) = (w @ hd (split_runs sep r)) # tl (split_runs sep r)"
proof (induction w)
  case Nil
  then show ?case using split_runs_nonempty [of sep r] by simp
next
  case (Cons c w)
  then show ?case by simp
qed

lemma hd_join: "ws \<noteq> [] \<Longrightarrow> hd ws \<noteq> [] \<Longrightarrow> hd (join sep ws) = hd (hd ws)"
  by (cases "(sep, ws)" rule: join.cases) auto

lemma join_nonempty: "ws \<noteq> [] \<Longrightarrow> hd ws \<noteq> [] \<Longrightarrow> join sep ws \<noteq> []"
  by (cases "(sep, ws)" rule: join.cases) auto

lemma split_runs_join:
  assumes "ws \<noteq> []" "\<forall>w \<in> set ws. w \<noteq> [] \<and> (\<forall>c \<in> set w. \<not> isWhiteSpace c)"
  shows "split_runs isWhiteSpace (join '' '' ws) = ws"
  using assms
proof (induction "'' ''" ws rule: join.induct)
  case 1
  then show ?case by simp
next
  case (2 x)
  then show ?case
    using split_runs_append_word [of x isWhiteSpace "[]"] by simp
next
  case (3 x y ys)
  let ?r = "join '' '' (y # ys)"
  from 3 have r: "split_runs isWhiteSpace ?r = y # ys" by simp
  from 3(3) have "y \<noteq> []" "\<not> isWhiteSpace (hd y)" by (simp_all)
  then have "?r \<noteq> []" "\<not> isWhiteSpace (hd ?r)"
    by (simp_all add: join_nonempty hd_join)
  then have d: "dropWhile isWhiteSpace ?r = ?r" by (cases ?r) simp_all
  have sp: "isWhiteSpace CHR '' ''" by (simp add: isWhiteSpace_def)
  have "split_runs isWhiteSpace ('' '' @ ?r) = [] # y # ys"
    using sp d r by simp
  with 3(3) show ?case
    using split_runs_append_word [of x isWhiteSpace "'' '' @ ?r"] by simp
qed

lemma wordsOf_join:
  assumes "\<forall>w \<in> set ws. w \<noteq> [] \<and> (\<forall>c \<in> set w. \<not> isWhiteSpace c)"
  shows "wordsOf (join '' '' ws) = ws"
proof (cases "ws = []")
  case True
  then show ?thesis by simp
next
  case False
  from split_runs_join [OF False assms] assms show ?thesis
    by (simp add: wordsOf_def filterBoolean_def filter_id_conv)
qed

lemma chunkWindows_short:
  "0 < n \<Longrightarrow> int n \<le> tw \<Longrightarrow> chunkWindows n tw ow 0 = [(0, int n)]"
  by (simp add: chunkWindows.simps [of n _ _ 0] Let_def min_def)

lemma chunk_short:
  assumes "wordsOf text \<noteq> []" "int (length (wordsOf text)) \<le> tw"
  shows "chunkTextByWords text tw ow = [join '' '' (wordsOf text)]"
proof -
  from assms have "1 \<le> tw" by (cases "wordsOf text") simp_all
  from chunkTextByWords_pos [OF assms(1) this, of ow] assms show ?thesis
    by (simp add: chunkWindows_short windowText_def js_slice_nonneg)
qed

lemma chunk_blank: "trim text = [] \<Longrightarrow> chunkTextByWords text tw ow = []"
  using words_Nil_iff [of "text"] by (simp add: chunkTextByWords_def)


section \<open>Properties of the sort and of the term score\<close>

lemma mset_sortInsert: "mset (sortInsert cmp x ys) = add_mset x (mset ys)"
  by (induction ys) simp_all

lemma mset_js_sort: "mset (js_sort cmp xs) = mset xs"
  by (induction xs) (simp_all add: js_sort_def mset_sortInsert)

lemma set_js_sort: "set (js_sort cmp xs) = set xs"
  using mset_js_sort [of cmp xs] by (metis set_mset_mset)

lemma length_js_sort: "length (js_sort cmp xs) = length xs"
  using mset_js_sort [of cmp xs] by (metis size_mset)

lemma js_sort_Cons: "js_sort cmp (x # xs) = sortInsert cmp x (js_sort cmp xs)"
  by (simp add: js_sort_def)

lemma js_sort_Nil: "js_sort cmp [] = []"
  by (simp add: js_sort_def)





lemma before_trans: "before key ix a b \<Longrightarrow> before key ix b c \<Longrightarrow> before key ix a c"
  by (auto simp: before_def)

lemma sortInsert_before:
  assumes "sorted_wrt (before key ix) ys" "\<forall>y \<in> set ys. ix x < ix y"
  shows "sorted_wrt (before key ix) (sortInsert (\<lambda>a b. key b - key a) x ys)"
  using assms
proof (induction ys)
  case Nil
  then show ?case by simp
next
  case (Cons y ys)
  show ?case
  proof (cases "key y - key x \<le> 0")
    case True
    then have xy: "before key ix x y" using Cons.prems(2) by (auto simp: before_def)
    moreover have "\<forall>z \<in> set ys. before key ix x z"
      using xy Cons.prems(1) before_trans [of key ix x y] by auto
    ultimately show ?thesis using True Cons.prems(1) by simp
  next
    case False
    then have yx: "before key ix y x" by (auto simp: before_def)
    have "set (sortInsert (\<lambda>a b. key b - key a) x ys) = insert x (set ys)"
      using mset_sortInsert [of "\<lambda>a b. key b - key a" x ys] by (metis set_mset_mset set_mset_add_mset_insert)
    with yx False Cons show ?thesis by auto
  qed
qed

lemma js_sort_before:
  "sorted_wrt (\<lambda>a b. ix a < ix b) xs \<Longrightarrow>
   sorted_wrt (before key ix) (js_sort (\<lambda>a b. key b - key a) xs)"
proof (induction xs)
  case Nil
  then show ?case by (simp add: js_sort_Nil)
next
  case (Cons x xs)
  then have "sorted_wrt (before key ix) (js_sort (\<lambda>a b. key b - key a) xs)" by simp
  moreover have "\<forall>y \<in> set (js_sort (\<lambda>a b. key b - key a) xs). ix x < ix y"
    using Cons.prems by (simp add: set_js_sort)
  ultimately show ?case
    unfolding js_sort_Cons by (rule sortInsert_before)
qed

lemma sortInsert_const:
  "\<forall>y \<in> set ys. key y = key x \<Longrightarrow> sortInsert (\<lambda>a b. key b - key a) x ys = x # ys"
  by (cases ys) simp_all

lemma js_sort_const:
  "\<forall>x \<in> set xs. key x = c \<Longrightarrow> js_sort (\<lambda>a b. key b - key a) xs = xs"
proof (induction xs)
  case Nil
  then show ?case by (simp add: js_sort_Nil)
next
  case (Cons x xs)
  then have "js_sort (\<lambda>a b. key b - key a) xs = xs" by simp
  with Cons.prems show ?case
    by (simp add: js_sort_Cons sortInsert_const)
qed

lemma js_slice_take:
  "0 \<le> k \<Longrightarrow> js_slice xs 0 k = take (nat k) xs"
  by (simp add: js_slice_def Let_def min_def)

lemma termScore_acc:
  "termScore lc terms score = score + int (length (filter (includesStr lc) terms))"
  by (induction terms arbitrary: score) simp_all

lemma termScore_count:
  "termScore lc terms 0 = int (length (filter (includesStr lc) terms))"
  by (simp add: termScore_acc)

lemma termScore_distinct:
  "distinct terms \<Longrightarrow> termScore lc terms 0 = distinctTermScore lc terms"
proof -
  assume "distinct terms"
  then have "distinct (filter (\<lambda>t. includesStr lc t) terms)" by simp
  from distinct_card [OF this] show ?thesis
    by (simp only: termScore_count distinctTermScore_def)
qed

lemma termScore_zero_iff:
  "termScore lc terms 0 = 0 \<longleftrightarrow> (\<forall>t \<in> set terms. \<not> includesStr lc t)"
  by (simp add: termScore_count filter_empty_conv)

lemma termScore_nonneg: "0 \<le> termScore lc terms 0"
  by (simp add: termScore_count)

section \<open>Properties of the prefilter\<close>

lemma scoredChunks_eq:
  "scoredChunks terms chunks =
   map (\<lambda>i. (i, termScore (toLowerCase (chunks ! i)) terms 0)) [0..<length chunks]"
  unfolding scoredChunks_def by (rule nth_equalityI) simp_all

lemma scoredChunks_fst: "map fst (scoredChunks terms chunks) = [0..<length chunks]"
  by (simp add: scoredChunks_eq comp_def)

lemma scoredChunks_snd:
  "p \<in> set (scoredChunks terms chunks) \<Longrightarrow>
   snd p = termScore (toLowerCase (chunks ! fst p)) terms 0 \<and> fst p < length chunks"
  by (auto simp: scoredChunks_eq)

lemma scoredChunks_sorted: "sorted_wrt (\<lambda>a b. fst a < fst b) (scoredChunks terms chunks)"
proof -
  have "sorted_wrt (<) (map fst (scoredChunks terms chunks))"
    by (simp add: scoredChunks_fst)
  then show ?thesis by (simp add: sorted_wrt_map)
qed

lemma length_scoredChunks: "length (scoredChunks terms chunks) = length chunks"
  by (simp add: scoredChunks_eq)

lemma prefilterChunks_unfold:
  "prefilterChunks question chunks cap =
     (if questionTerms question = [] then arrayFromLength (min cap (int (length chunks)))
      else if sortedScored (questionTerms question) chunks \<noteq> [] \<and>
              snd (hd (sortedScored (questionTerms question) chunks)) > 0
           then map fst (js_slice (sortedScored (questionTerms question) chunks) 0
                          (min cap (int (length chunks))))
           else arrayFromLength (min cap (int (length chunks))))"
  by (simp add: prefilterChunks_def Let_def sortedScored_def)

lemma sortedScored_before:
  "sorted_wrt (before snd fst) (sortedScored terms chunks)"
  unfolding sortedScored_def by (rule js_sort_before) (rule scoredChunks_sorted)

lemma set_sortedScored: "set (sortedScored terms chunks) = set (scoredChunks terms chunks)"
  by (simp add: sortedScored_def set_js_sort)

lemma length_sortedScored: "length (sortedScored terms chunks) = length chunks"
  by (simp add: sortedScored_def length_js_sort length_scoredChunks)

lemma no_signal_all_zero:
  assumes "\<not> (sortedScored terms chunks \<noteq> [] \<and> snd (hd (sortedScored terms chunks)) > 0)"
  shows "\<forall>p \<in> set (scoredChunks terms chunks). snd p = 0"
proof
  fix p assume p: "p \<in> set (scoredChunks terms chunks)"
  then have ps: "p \<in> set (sortedScored terms chunks)" by (simp add: set_sortedScored)
  then obtain h t where ht: "sortedScored terms chunks = h # t"
    by (cases "sortedScored terms chunks") auto
  with assms have h0: "snd h \<le> 0" by simp
  have "snd p \<le> snd h"
    using sortedScored_before [of terms chunks] ps unfolding ht
    by (auto simp: before_def)
  moreover have "0 \<le> snd p"
    using scoredChunks_snd [OF p] by (simp add: termScore_nonneg)
  ultimately show "snd p = 0" using h0 by simp
qed

lemma all_zero_no_signal:
  assumes "\<forall>p \<in> set (scoredChunks terms chunks). snd p = 0"
  shows "\<not> (sortedScored terms chunks \<noteq> [] \<and> snd (hd (sortedScored terms chunks)) > 0)"
proof
  assume a: "sortedScored terms chunks \<noteq> [] \<and> snd (hd (sortedScored terms chunks)) > 0"
  then have "hd (sortedScored terms chunks) \<in> set (scoredChunks terms chunks)"
    using set_sortedScored [of terms chunks] hd_in_set by blast
  with assms a show False by auto
qed

lemma sortedScored_all_zero:
  assumes "\<forall>p \<in> set (scoredChunks terms chunks). snd p = 0"
  shows "sortedScored terms chunks = scoredChunks terms chunks"
  unfolding sortedScored_def using assms by (rule js_sort_const)

theorem prefilter_fallback:
  "(questionTerms question = [] \<or>
    (\<forall>c \<in> set chunks. \<forall>t \<in> set (questionTerms question). \<not> includesStr (toLowerCase c) t)) \<longrightarrow>
   prefilterChunks question chunks cap = [0..<nat (min cap (int (length chunks)))]"
proof
  assume a: "questionTerms question = [] \<or>
    (\<forall>c \<in> set chunks. \<forall>t \<in> set (questionTerms question). \<not> includesStr (toLowerCase c) t)"
  show "prefilterChunks question chunks cap = [0..<nat (min cap (int (length chunks)))]"
  proof (cases "questionTerms question = []")
    case True
    then show ?thesis by (simp add: prefilterChunks_unfold arrayFromLength_def)
  next
    case False
    with a have "\<forall>c \<in> set chunks. termScore (toLowerCase c) (questionTerms question) 0 = 0"
      by (simp add: termScore_zero_iff)
    then have "\<forall>p \<in> set (scoredChunks (questionTerms question) chunks). snd p = 0"
      by (auto simp: scoredChunks_eq)
    from all_zero_no_signal [OF this] False show ?thesis
      by (auto simp: prefilterChunks_unfold arrayFromLength_def)
  qed
qed

lemma prefilter_length:
  assumes "0 \<le> cap"
  shows "length (prefilterChunks question chunks cap) = nat (min cap (int (length chunks)))"
  using assms
  by (auto simp: prefilterChunks_unfold arrayFromLength_def js_slice_take length_sortedScored min_def)

lemma prefilter_sorted_prefix:
  assumes "0 \<le> cap" "questionTerms question \<noteq> []"
  shows "prefilterChunks question chunks cap =
         take (nat (min cap (int (length chunks))))
           (map fst (sortedScored (questionTerms question) chunks))"
proof (cases "sortedScored (questionTerms question) chunks \<noteq> [] \<and>
              snd (hd (sortedScored (questionTerms question) chunks)) > 0")
  case True
  with assms show ?thesis
    by (simp add: prefilterChunks_unfold js_slice_take take_map)
next
  case False
  from sortedScored_all_zero [OF no_signal_all_zero [OF False]]
  have "map fst (sortedScored (questionTerms question) chunks) = [0..<length chunks]"
    by (simp add: scoredChunks_fst)
  moreover from False assms have "prefilterChunks question chunks cap =
      [0..<nat (min cap (int (length chunks)))]"
    by (auto simp: prefilterChunks_unfold arrayFromLength_def)
  ultimately show ?thesis using assms
    by (simp add: take_upt min_def)
qed

lemma sortedScored_perm:
  "mset (map fst (sortedScored terms chunks)) = mset [0..<length chunks]"
proof -
  have "mset (map fst (sortedScored terms chunks)) = mset (map fst (scoredChunks terms chunks))"
    by (simp add: sortedScored_def mset_js_sort)
  then show ?thesis by (simp add: scoredChunks_fst)
qed

lemma sortedScored_order:
  "sorted_wrt (\<lambda>i j. termScore (toLowerCase (chunks ! i)) terms 0 > termScore (toLowerCase (chunks ! j)) terms 0
                  \<or> (termScore (toLowerCase (chunks ! i)) terms 0 = termScore (toLowerCase (chunks ! j)) terms 0 \<and> i < j))
     (map fst (sortedScored terms chunks))"
proof -
  have "sorted_wrt (\<lambda>a b. termScore (toLowerCase (chunks ! fst a)) terms 0 > termScore (toLowerCase (chunks ! fst b)) terms 0
                  \<or> (termScore (toLowerCase (chunks ! fst a)) terms 0 = termScore (toLowerCase (chunks ! fst b)) terms 0 \<and> fst a < fst b))
     (sortedScored terms chunks)"
    using sortedScored_before [of terms chunks]
  proof (rule sorted_wrt_mono_rel [rotated])
    fix a b
    assume "a \<in> set (sortedScored terms chunks)" "b \<in> set (sortedScored terms chunks)"
      "before snd fst a b"
    then show "termScore (toLowerCase (chunks ! fst a)) terms 0 > termScore (toLowerCase (chunks ! fst b)) terms 0
                  \<or> (termScore (toLowerCase (chunks ! fst a)) terms 0 = termScore (toLowerCase (chunks ! fst b)) terms 0 \<and> fst a < fst b)"
      using scoredChunks_snd [of a terms chunks] scoredChunks_snd [of b terms chunks]
      by (simp add: set_sortedScored before_def)
  qed
  then show ?thesis by (simp add: sorted_wrt_map)
qed

section \<open>Properties of the rounding and of the cosine similarity\<close>

lemma pow2_powr: "pow2 k = 2 powr (real_of_int k)"
proof (cases "0 \<le> k")
  case True
  then have "2 powr (real_of_int k) = 2 powr (real (nat k))" by simp
  also have "\<dots> = 2 ^ nat k" by (simp add: powr_realpow)
  finally show ?thesis using True by (simp add: pow2_def)
next
  case False
  then have "2 powr (real_of_int k) = 2 powr (- real (nat (- k)))" by simp
  also have "\<dots> = 1 / 2 ^ nat (- k)" by (simp add: powr_minus powr_realpow divide_inverse)
  finally show ?thesis using False by (simp add: pow2_def)
qed

lemma pow2_Suc: "pow2 (k + 1) = 2 * pow2 k"
  by (simp add: pow2_powr powr_add)

lemma pow2_pos: "0 < pow2 k"
  by (simp add: pow2_powr)

lemma expo2_bounds:
  "0 < x \<Longrightarrow> pow2 (expo2 x) \<le> x \<and> x < pow2 (expo2 x + 1)"
proof (induction x rule: expo2.induct)
  case (1 x)
  show ?case
  proof (cases "2 \<le> x")
    case True
    with 1 have IH: "pow2 (expo2 (x / 2)) \<le> x / 2 \<and> x / 2 < pow2 (expo2 (x / 2) + 1)" by simp
    have e: "expo2 x = expo2 (x / 2) + 1" using True 1(3) by (simp add: expo2.simps [of x])
    have a: "pow2 (expo2 x) = 2 * pow2 (expo2 (x / 2))"
      unfolding e by (rule pow2_Suc)
    have b: "pow2 (expo2 x + 1) = 2 * (2 * pow2 (expo2 (x / 2)))"
      unfolding e by (simp only: pow2_Suc)
    from IH have "pow2 (expo2 (x / 2)) \<le> x / 2" "x / 2 < 2 * pow2 (expo2 (x / 2))"
      by (simp_all only: pow2_Suc)
    then show ?thesis unfolding a b by linarith
  next
    case False
    show ?thesis
    proof (cases "x < 1")
      case True
      with 1 False have IH: "pow2 (expo2 (x * 2)) \<le> x * 2 \<and> x * 2 < pow2 (expo2 (x * 2) + 1)"
        by simp
      have e: "expo2 x = expo2 (x * 2) - 1" using True False 1(3) by (simp add: expo2.simps [of x])
      have a: "pow2 (expo2 (x * 2)) = 2 * pow2 (expo2 x)"
        using pow2_Suc [of "expo2 (x * 2) - 1"] by (simp add: e)
      have b: "pow2 (expo2 (x * 2) + 1) = 2 * pow2 (expo2 x + 1)"
        using pow2_Suc [of "expo2 (x * 2)"] by (simp add: e)
      from IH have "2 * pow2 (expo2 x) \<le> x * 2" "x * 2 < 2 * pow2 (expo2 x + 1)"
        by (simp_all only: a b)
      then show ?thesis by linarith
    next
      case x1: False
      with False 1(3) show ?thesis by (simp add: expo2.simps [of x] pow2_def)
    qed
  qed
qed


lemma strictEquals_zero [simp]: "strictEquals a (Num 0) \<longleftrightarrow> a = Num 0"
  by (auto simp: strictEquals_def)








lemma fl_0: "fl 0 = 0" by (simp add: fl_def)
lemma fl_1: "fl 1 = 1" by code_simp








lemma roundNum_0: "roundNum 0 = Num 0"
  using pow2_pos [of 1024] by (simp add: roundNum_def fl_0)

lemma roundNum_1: "roundNum 1 = Num 1"
  by (simp add: roundNum_def fl_1 pow2_def)






lemma cos_3: "cosineSimilarity (Some [3]) (Some [3]) = Num 1"
proof -
  have "fl 9 = 9" "fl 3 = 3" by code_simp+
  then have "roundNum 9 = Num 9" "roundNum 3 = Num 3" by (simp_all add: roundNum_def pow2_def)
  moreover have "sqrt 9 = 3" by (simp add: real_sqrt_unique)
  ultimately show ?thesis
    by (simp add: cosineSimilarity_def cosineSimilarityWith_def roundNum_0 roundNum_1)
qed


lemma pow2_add: "pow2 (i + j) = pow2 i * pow2 j"
  by (simp add: pow2_powr powr_add)

lemma pow2_mono: "i \<le> j \<Longrightarrow> pow2 i \<le> pow2 j"
  by (simp add: pow2_powr)

lemma pow2_less_cancel: "pow2 i < pow2 j \<Longrightarrow> i < j"
  by (simp add: pow2_powr)



lemma roundHalfEven_ge: "of_int k \<le> y \<Longrightarrow> k \<le> roundHalfEven y"
proof -
  assume "of_int k \<le> y"
  then have "k \<le> \<lfloor>y\<rfloor>" by (simp add: le_floor_iff)
  then show ?thesis by (simp add: roundHalfEven_def Let_def)
qed

lemma fl_ge_pow2:
  assumes "pow2 e \<le> x" "- 1022 \<le> e"
  shows "pow2 e \<le> fl x"
proof -
  from assms(1) pow2_pos [of e] have x: "0 < x" by linarith
  define e' where "e' = expo2 x"
  from expo2_bounds [OF x] have b: "pow2 e' \<le> x" "x < pow2 (e' + 1)"
    by (simp_all add: e'_def)
  from assms(1) b(2) have "pow2 e < pow2 (e' + 1)" by linarith
  then have ee: "e \<le> e'" using pow2_less_cancel [of e "e' + 1"] by linarith
  define u where "u = pow2 (e' - 52)"
  have u: "0 < u" by (simp add: u_def pow2_pos)
  from ee assms(2) have m: "max e' (- 1022) = e'" by simp
  have f: "fl x = u * of_int (roundHalfEven (x / u))"
    using x by (simp add: fl_def Let_def e'_def [symmetric] u_def m)
  have p: "pow2 e' = u * pow2 52"
    using pow2_add [of "e' - 52" 52] by (simp add: u_def)
  have "of_int (2 ^ 52) \<le> x / u"
  proof -
    have "pow2 52 = of_int (2 ^ 52)" by (simp add: pow2_def)
    moreover have "pow2 52 \<le> x / u" using b(1) u by (simp add: p pos_le_divide_eq mult.commute)
    ultimately show ?thesis by simp
  qed
  then have "2 ^ 52 \<le> roundHalfEven (x / u)" by (rule roundHalfEven_ge)
  then have "(of_int (2 ^ 52) :: real) \<le> of_int (roundHalfEven (x / u))"
    by (simp only: of_int_le_iff)
  then have "u * pow2 52 \<le> u * of_int (roundHalfEven (x / u))"
    using u by (simp add: pow2_def)
  then have "pow2 e' \<le> fl x" by (simp add: p f)
  with pow2_mono [OF ee] show ?thesis by linarith
qed









lemma fl_least:
  assumes "pow2 (- 1074) \<le> x"
  shows "pow2 (- 1074) \<le> fl x"
proof -
  from assms pow2_pos [of "- 1074"] have x: "0 < x" by linarith
  show ?thesis
  proof (cases "- 1022 \<le> expo2 x")
    case True
    from expo2_bounds [OF x] have "pow2 (expo2 x) \<le> x" by simp
    from fl_ge_pow2 [OF this True] pow2_mono [of "- 1074" "expo2 x"] True
    show ?thesis by simp
  next
    case False
    then have m: "max (expo2 x) (- 1022) = - 1022" by simp
    have f: "fl x = pow2 (- 1074) * of_int (roundHalfEven (x / pow2 (- 1074)))"
      using x by (simp add: fl_def Let_def m)
    have "of_int 1 \<le> x / pow2 (- 1074)"
      using assms pow2_pos [of "- 1074"] by (simp add: pos_le_divide_eq)
    then have "1 \<le> roundHalfEven (x / pow2 (- 1074))" by (rule roundHalfEven_ge)
    then have "(1::real) \<le> of_int (roundHalfEven (x / pow2 (- 1074)))" by simp
    then have "pow2 (- 1074) * 1 \<le> pow2 (- 1074) * of_int (roundHalfEven (x / pow2 (- 1074)))"
      using pow2_pos [of "- 1074"] by (intro mult_left_mono) simp_all
    then show ?thesis by (simp add: f)
  qed
qed

lemma fl_grid_nonneg:
  assumes "0 \<le> x"
  shows "fl x = 0 \<or> pow2 (- 1074) \<le> fl x"
proof (cases "x = 0")
  case True
  then show ?thesis by (simp add: fl_0)
next
  case False
  with assms have x: "0 < x" by simp
  define u where "u = pow2 (max (expo2 \<bar>x\<bar>) (- 1022) - 52)"
  define k where "k = roundHalfEven (x / u)"
  have u: "pow2 (- 1074) \<le> u" unfolding u_def by (rule pow2_mono) simp
  have u0: "0 < u" by (simp add: u_def pow2_pos)
  have f: "fl x = u * of_int k" using False by (simp add: fl_def Let_def u_def k_def)
  have "of_int 0 \<le> x / u" using x u0 by simp
  then have k: "0 \<le> k" unfolding k_def by (rule roundHalfEven_ge)
  show ?thesis
  proof (cases "k = 0")
    case True
    then show ?thesis by (simp add: f)
  next
    case False
    with k have "(1::real) \<le> of_int k" by simp
    then have "u * 1 \<le> u * of_int k" using u0 by (intro mult_left_mono) simp_all
    with u show ?thesis by (simp add: f)
  qed
qed

lemma normValue_roundNum: "0 \<le> x \<Longrightarrow> normValue (roundNum x)"
  using fl_grid_nonneg [of x] pow2_pos [of 1024]
  by (auto simp: normValue_def roundNum_def infinityOf_def fl_0)

lemma normValue_nadd:
  "normValue m \<Longrightarrow> normValue p \<Longrightarrow> normValue (nadd roundNum m p)"
proof (cases m; cases p)
  fix x y assume a: "normValue m" "normValue p" "m = Num x" "p = Num y"
  then have "0 \<le> x" "0 \<le> y"
    using pow2_pos [of "- 1074"] by (auto simp: normValue_def)
  then have "normValue (roundNum (x + y))" by (intro normValue_roundNum) simp
  with a show ?thesis by simp
qed (simp_all add: normValue_def)

lemma normValue_loop:
  "normValue na \<Longrightarrow> normValue nb \<Longrightarrow>
   cosineLoopWith roundNum a b (d, na, nb) = (x, y, z) \<Longrightarrow> normValue y \<and> normValue z"
proof (induction a arbitrary: b d na nb)
  case Nil
  then show ?case by (cases b) auto
next
  case (Cons v a)
  show ?case
  proof (cases b)
    case Nil
    with Cons.prems show ?thesis by auto
  next
    case (Cons w b')
    have h: "normValue (nadd roundNum na (roundNum (v * v)))"
      "normValue (nadd roundNum nb (roundNum (w * w)))"
      using Cons.prems(1,2) by (simp_all add: normValue_nadd normValue_roundNum)
    from Cons.prems(3) Cons
    have "cosineLoopWith roundNum a b'
            (nadd roundNum d (roundNum (v * w)), nadd roundNum na (roundNum (v * v)),
             nadd roundNum nb (roundNum (w * w))) = (x, y, z)" by simp
    from Cons.IH [OF h this] show ?thesis .
  qed
qed

lemma Math_sqrt_norm:
  assumes "normValue m" "m \<noteq> Num 0"
  shows "Math_sqrt roundNum m = Infinity \<or>
         (\<exists>s. Math_sqrt roundNum m = Num s \<and> pow2 (- 537) \<le> s)"
proof (cases m)
  case (Num x)
  with assms have x: "pow2 (- 1074) \<le> x" by (auto simp: normValue_def)
  with pow2_pos [of "- 1074"] have x0: "0 < x" by linarith
  have "pow2 (- 1074) = pow2 (- 537) * pow2 (- 537)"
    using pow2_add [of "- 537" "- 537"] by simp
  with x have "sqrt (pow2 (- 537) * pow2 (- 537)) \<le> sqrt x"
    by (simp only: real_sqrt_le_iff)
  then have "pow2 (- 537) \<le> sqrt x" using pow2_pos [of "- 537"] by simp
  then have "pow2 (- 537) \<le> fl (sqrt x)" by (rule fl_ge_pow2) simp
  with Num x0 show ?thesis by (simp add: roundNum_def infinityOf_def)
next
  case Infinity
  then show ?thesis by simp
next
  case NegInfinity
  with assms show ?thesis by (simp add: normValue_def)
next
  case NaN
  with assms show ?thesis by (simp add: normValue_def)
qed

lemma cosine_divisor:
  assumes "cosineLoopWith roundNum a b (Num 0, Num 0, Num 0) = (dotProduct, normA, normB)"
    "normA \<noteq> Num 0" "normB \<noteq> Num 0"
  shows "nmul roundNum (Math_sqrt roundNum normA) (Math_sqrt roundNum normB) = Infinity \<or>
         (\<exists>d. nmul roundNum (Math_sqrt roundNum normA) (Math_sqrt roundNum normB) = Num d \<and>
              0 < d)"
proof -
  have z: "normValue (Num 0)" by (simp add: normValue_def)
  from normValue_loop [OF z z assms(1)] have n: "normValue normA" "normValue normB" by simp_all
  have p: "0 < pow2 (- 537)" by (rule pow2_pos)
  have m: "roundNum (s * t) = Infinity \<or> (\<exists>d. roundNum (s * t) = Num d \<and> 0 < d)"
    if "pow2 (- 537) \<le> s" "pow2 (- 537) \<le> t" for s t
  proof -
    have "pow2 (- 537) * pow2 (- 537) \<le> s * t"
      using that p by (intro mult_mono) simp_all
    then have st: "pow2 (- 1074) \<le> s * t" using pow2_add [of "- 537" "- 537"] by simp
    from fl_least [OF this] pow2_pos [of "- 1074"] have "0 < fl (s * t)" by linarith
    moreover from st pow2_pos [of "- 1074"] have "0 < s * t" by linarith
    ultimately show ?thesis by (simp add: roundNum_def infinityOf_def)
  qed
  from Math_sqrt_norm [OF n(1) assms(2)] show ?thesis
  proof
    assume a: "Math_sqrt roundNum normA = Infinity"
    from Math_sqrt_norm [OF n(2) assms(3)] show ?thesis
    proof
      assume "Math_sqrt roundNum normB = Infinity"
      with a show ?thesis by (simp add: infinityOf_def)
    next
      assume "\<exists>t. Math_sqrt roundNum normB = Num t \<and> pow2 (- 537) \<le> t"
      then obtain t where "Math_sqrt roundNum normB = Num t" "pow2 (- 537) \<le> t" by blast
      with a p show ?thesis by (simp add: infinityOf_def)
    qed
  next
    assume "\<exists>s. Math_sqrt roundNum normA = Num s \<and> pow2 (- 537) \<le> s"
    then obtain s where s: "Math_sqrt roundNum normA = Num s" "pow2 (- 537) \<le> s" by blast
    from Math_sqrt_norm [OF n(2) assms(3)] show ?thesis
    proof
      assume "Math_sqrt roundNum normB = Infinity"
      with s p show ?thesis by (simp add: infinityOf_def)
    next
      assume "\<exists>t. Math_sqrt roundNum normB = Num t \<and> pow2 (- 537) \<le> t"
      then obtain t where t: "Math_sqrt roundNum normB = Num t" "pow2 (- 537) \<le> t" by blast
      from m [OF s(2) t(2)] s(1) t(1) show ?thesis by simp
    qed
  qed
qed




section \<open>Properties of the selection\<close>










lemma Math_max_Nil: "Math_max [] = NegInfinity"
  by (simp add: Math_max_def)




lemma dynamicK_cases: "dynamicK m \<in> {2, 4, 6}"
  by (simp add: dynamicK_def)



lemma topIdx_take:
  "topIdx sims = take (nat (dynamicK (Math_max sims))) (map snd (rankedSims sims))"
proof -
  have "0 \<le> dynamicK (Math_max sims)" using dynamicK_cases [of "Math_max sims"] by auto
  then show ?thesis
    by (simp add: topIdx_def Let_def rankedSims_def js_slice_take take_map)
qed

lemma length_rankedSims: "length (rankedSims sims) = length sims"
  by (simp add: rankedSims_def length_js_sort)

lemma topIdx_length:
  "int (length (topIdx sims)) = min (dynamicK (Math_max sims)) (int (length sims))"
  using dynamicK_cases [of "Math_max sims"]
  by (auto simp: topIdx_take length_rankedSims)





lemma ngreaterEq_iff: "a \<noteq> NaN \<Longrightarrow> b \<noteq> NaN \<Longrightarrow> ngreaterEq a b \<longleftrightarrow> \<not> nless a b"
  by (simp add: ngreaterEq_def)






section \<open>Properties of the chunk loading\<close>









lemma showNat_values:
  "showNat 1 = ''1''" "showNat 9 = ''9''" "showNat 10 = ''10''" "showNat 123 = ''123''"
  by code_simp+





lemma chunkTextByWords_nonempty:
  assumes "trim t \<noteq> []" "1 \<le> tw"
  shows "chunkTextByWords t tw ow \<noteq> []"
proof -
  from assms(1) have ws: "wordsOf t \<noteq> []"
    using words_Nil_iff [of t] by (simp add: wordsOf_def)
  then have "0 < int (length (wordsOf t))" by simp
  from chunkWindows_pos [OF assms(2) order_refl this, of ow]
  show ?thesis by (simp add: chunkTextByWords_pos [OF ws assms(2)])
qed

lemma loadChunks_fallback:
  assumes "extractedText documentData = Some t" "trim t \<noteq> []"
  shows "loadChunks [] documentData =
         Inr (map (\<lambda>i. \<lparr> chunk_id = ''fallback_'' @ showNat i, chunk_index = int i,
                          chunk_text = chunkTextByWords t 900 120 ! i, chunk_embedding = None \<rparr>)
                [0..<length (chunkTextByWords t 900 120)])"
proof -
  have "zip xs [0..<length xs] = map (\<lambda>i. (xs ! i, i)) [0..<length xs]" for xs :: "string list"
    by (rule nth_equalityI) simp_all
  moreover from assms have "t \<noteq> []" by (auto simp: trim_def)
  ultimately show ?thesis using assms
    by (simp add: loadChunks_def Let_def comp_def)
qed

lemma loadChunks_nonempty:
  assumes "loadChunks chunkDocs documentData = Inr chunks"
  shows "chunks \<noteq> []"
proof (cases "chunkDocs = []")
  case False
  with assms show ?thesis by (auto simp: loadChunks_def)
next
  case True
  with assms obtain t where t: "extractedText documentData = Some t" "trim t \<noteq> []"
    by (auto simp: loadChunks_def Let_def split: option.splits if_splits)
  from chunkTextByWords_nonempty [OF t(2), of 900 120] loadChunks_fallback [OF t] assms True
  show ?thesis by auto
qed


lemma fetchChunks_nonempty:
  "fetchChunks sv documentId w = (Inr chunks, w') \<Longrightarrow> chunks \<noteq> []"
  by (auto simp: fetchChunks_def split: prod.splits promise.splits option.splits
           dest: loadChunks_nonempty)

section \<open>Properties of the embedding loop and of the backfill\<close>

lemma ensureEmbeddings_acc:
  "ensureEmbeddings sv targetDim filtered fc0 tb0 w = (Resolved (fc, tb), w') \<Longrightarrow>
   \<exists>fc1. fc = fc0 @ fc1 \<and> length fc1 = length filtered \<and>
         tb = tb0 @ backfillItems targetDim filtered fc1"
proof (induction filtered arbitrary: fc0 tb0 w)
  case Nil
  then show ?case by (simp add: backfillItems_def)
next
  case (Cons c filtered)
  show ?case
  proof (cases "needReembed targetDim c")
    case False
    then obtain v where v: "chunk_embedding c = Some v" "length v = targetDim"
      by (auto simp: needReembed_def split: option.splits)
    with Cons.prems have "ensureEmbeddings sv targetDim filtered (fc0 @ [v]) tb0 w =
        (Resolved (fc, tb), w')" by simp
    from Cons.IH [OF this] obtain fc1 where
      "fc = (fc0 @ [v]) @ fc1" "length fc1 = length filtered"
      "tb = tb0 @ backfillItems targetDim filtered fc1" by blast
    with False show ?thesis
      by (intro exI [of _ "v # fc1"]) (simp add: backfillItems_def)
  next
    case True
    then have n: "(case chunk_embedding c of None \<Rightarrow> True | Some v \<Rightarrow> length v \<noteq> targetDim)"
      by (simp add: needReembed_def)
    from Cons.prems n obtain vals w1 where
      e: "embedContent sv (chunk_text c) RETRIEVAL_DOCUMENT w = (Resolved vals, w1)"
      by (cases "embedContent sv (chunk_text c) RETRIEVAL_DOCUMENT w";
          cases "fst (embedContent sv (chunk_text c) RETRIEVAL_DOCUMENT w)")
         (auto simp: Let_def)
    let ?tb1 = "if \<not> startsWith (chunk_id c) ''fallback_''
                then tb0 @ [(chunk_id c, vals)] else tb0"
    from Cons.prems n e have "ensureEmbeddings sv targetDim filtered (fc0 @ [vals]) ?tb1 w1 =
        (Resolved (fc, tb), w')" by (simp add: Let_def)
    from Cons.IH [OF this] obtain fc1 where
      "fc = (fc0 @ [vals]) @ fc1" "length fc1 = length filtered"
      "tb = ?tb1 @ backfillItems targetDim filtered fc1" by blast
    with True show ?thesis
      by (intro exI [of _ "vals # fc1"]) (simp add: backfillItems_def)
  qed
qed

lemma ensureEmbeddings_result:
  assumes "ensureEmbeddings sv targetDim filtered [] [] w = (Resolved (fc, tb), w')"
  shows "length fc = length filtered" "tb = backfillItems targetDim filtered fc"
  using ensureEmbeddings_acc [OF assms] by auto













section \<open>Properties of the callable\<close>

lemma prefilter_range:
  assumes "0 \<le> cap"
  shows "set (prefilterChunks question chunks cap) \<subseteq> {0..<length chunks}"
proof (cases "questionTerms question = []")
  case True
  with prefilter_fallback [of question chunks cap] assms show ?thesis by auto
next
  case False
  have "set (map fst (sortedScored (questionTerms question) chunks)) = {0..<length chunks}"
    using sortedScored_perm [of "questionTerms question" chunks]
    by (metis set_mset_mset set_upt)
  then show ?thesis
    using prefilter_sorted_prefix [OF assms False, of chunks] set_take_subset by fastforce
qed

lemma prefilter_nonempty:
  assumes "chunks \<noteq> []"
  shows "prefilterChunks question chunks 60 \<noteq> []"
proof -
  have "length (prefilterChunks question chunks 60) = nat (min 60 (int (length chunks)))"
    by (rule prefilter_length) simp
  moreover from assms have "0 < min 60 (int (length chunks))" by simp
  ultimately have "0 < length (prefilterChunks question chunks 60)" by simp
  then show ?thesis by auto
qed

lemma retrieveTopChunks_count:
  assumes "retrieveTopChunks sv question chunks w = (Resolved topChunks, w')" "chunks \<noteq> []"
  shows "1 \<le> length topChunks \<and> length topChunks \<le> 6"
proof -
  let ?idx = "prefilterChunks question (map chunk_text chunks) 60"
  let ?filtered = "map (\<lambda>i. chunks ! i) ?idx"
  from assms(1) obtain qEmbedding fc tb w2 w3 where
    e: "ensureEmbeddings sv (length qEmbedding) ?filtered [] [] w2 = (Resolved (fc, tb), w3)"
    and t: "topChunks = map (\<lambda>i. ?filtered ! i)
              (topIdx (map (\<lambda>e. cosineSimilarity (Some qEmbedding) (Some e)) fc))"
    by (auto simp: retrieveTopChunks_def Let_def split: prod.splits promise.splits)
  from assms(2) have "?idx \<noteq> []" by (simp add: prefilter_nonempty)
  with ensureEmbeddings_result(1) [OF e] have n: "fc \<noteq> []" by auto
  let ?sims = "map (\<lambda>e. cosineSimilarity (Some qEmbedding) (Some e)) fc"
  have "int (length topChunks) = min (dynamicK (Math_max ?sims)) (int (length ?sims))"
    using topIdx_length [of ?sims] by (simp add: t)
  with n dynamicK_cases [of "Math_max ?sims"] show ?thesis
    by (cases fc) auto
qed

lemma answerFromChunks_result:
  assumes "answerFromChunks sv question memoryContext summaryText topChunks w = (Resolved r, w')"
  shows "res_citations r = map (\<lambda>c. (chunk_id c, js_slice (chunk_text c) 0 200)) topChunks \<and>
         res_topChunkIds r = map chunk_id topChunks"
  using assms
  by (auto simp: answerFromChunks_def Let_def split: prod.splits promise.splits)

lemma tryBlock_success:
  assumes "fst (tryBlock sv userId question documentId sessionId remember w) = Inr r"
  shows "1 \<le> length (res_citations r) \<and> length (res_citations r) \<le> 6 \<and>
         length (res_topChunkIds r) = length (res_citations r)"
proof -
  from assms obtain chunks w1 memoryContext summaryText w2 topChunks w3 w4 where
    f: "fetchChunks sv documentId w = (Inr chunks, w1)"
    and rt: "retrieveTopChunks sv question chunks w2 = (Resolved topChunks, w3)"
    and a: "answerFromChunks sv question memoryContext summaryText topChunks w3 = (Resolved r, w4)"
    by (auto simp: tryBlock_def split: prod.splits sum.splits promise.splits)
  from fetchChunks_nonempty [OF f] have "chunks \<noteq> []" .
  from retrieveTopChunks_count [OF rt this] answerFromChunks_result [OF a]
  show ?thesis by simp
qed

lemma askQuestion_success:
  assumes "fst (askQuestion sv request w) = Inr r"
  shows "1 \<le> length (res_citations r) \<and> length (res_citations r) \<le> 6 \<and>
         length (res_topChunkIds r) = length (res_citations r)"
proof -
  from assms obtain userId question documentId where
    "fst (tryBlock sv userId question documentId (req_sessionId request) (req_remember request) w)
       = Inr r"
    by (auto simp: askQuestion_def split: option.splits if_splits)
  then show ?thesis by (rule tryBlock_success)
qed




section \<open>The small instance evaluated\<close>

lemma stub_fetch:
  "fetchChunks (stubServices None stubChunkDocs ok) ''d1'' 0 = (Inr stubChunks, 0)"
  by (simp add: fetchChunks_def stubServices_def loadChunks_def stubChunkDocs_def stubChunks_def)

lemma stub_memory:
  "conversationMemory (stubServices None stubChunkDocs ok) ''u1'' None False 0 =
   (Resolved ([], []), 0)"
  by (simp add: conversationMemory_def)

lemma stub_prefilter:
  "prefilterChunks ''Late fees?'' [''Rent is due'', ''Late fees apply''] 60 = [1, 0]"
  by code_simp

lemma stub_cos:
  "cosineSimilarity (Some [1, 0]) (Some [1, 0]) = Num 1"
  "cosineSimilarity (Some [1, 0]) (Some [0, 1]) = Num 0"
  by (simp_all add: cosineSimilarity_def cosineSimilarityWith_def roundNum_0 roundNum_1)

lemma stub_topIdx: "topIdx [Num 0, Num 1] = [1, 0]"
  by code_simp

lemma stub_retrieve:
  "retrieveTopChunks (stubServices None stubChunkDocs ok) ''Late fees?'' stubChunks 0 =
   (Resolved stubChunks, Suc 0)"
proof -
  have sf: "startsWith ''c0'' ''fallback_'' = False" by code_simp
  show ?thesis
    by (simp add: retrieveTopChunks_def stubChunks_def stub_prefilter findRelevantChunks_def
          stubServices_def Let_def elementAt_def stub_cos stub_topIdx backfill_def sf)
qed

lemma stub_answer:
  "answerFromChunks (stubServices None stubChunkDocs ok) ''Late fees?'' [] [] stubChunks (Suc 0) =
   (Resolved stubAnswer, Suc 0)"
proof -
  have d: "detectRiskyClauses stubChunks = [(''c1'', ''Late fees apply'', MEDIUM)]"
    unfolding stubChunks_def by code_simp
  have p: "parseFollowUps ''1. Why? 2. When?'' = [''Why? 2. When?'']" by code_simp
  have c: "map (\<lambda>c. (chunk_id c, js_slice (chunk_text c) 0 200)) stubChunks =
           [(''c0'', ''Rent is due''), (''c1'', ''Late fees apply'')]"
    unfolding stubChunks_def by code_simp
  have i: "map chunk_id stubChunks = [''c0'', ''c1'']" by (simp add: stubChunks_def)
  show ?thesis
    unfolding answerFromChunks_def
    by (simp add: stubServices_def Let_def d p c i stubAnswer_def)
qed

lemma stub_askQuestion:
  "askQuestion (stubServices None stubChunkDocs ok) stubRequest 0 = (Inr stubAnswer, 1)"
proof -
  have t: "trim ''Late fees?'' \<noteq> []" "trim ''d1'' \<noteq> []" by code_simp+
  have k: "geminiApiKey (stubServices None stubChunkDocs ok) \<noteq> []"
    by (simp add: stubServices_def)
  have "tryBlock (stubServices None stubChunkDocs ok) ''u1'' ''Late fees?'' ''d1'' None False 0 =
        (Inr stubAnswer, 1)"
    by (simp add: tryBlock_def stub_fetch stub_memory stub_retrieve stub_answer)
  with t k show ?thesis
    by (simp add: askQuestion_def stubRequest_def)
qed

section \<open>The claims about the chunker\<close>

text \<open>
  Claim C9. The function \<open>chunkTextByWords\<close> of functions/src/index.ts and the function of the
  same name of functions/src/processUpload.ts return the same chunks for every text,
  \<open>targetWords\<close> and \<open>overlapWords\<close>. So the chunks that the retrieval makes on the fly of an
  extracted text that is not blank have the texts that the upload processor, which calls its
  function with 900 and 120 too, makes of the same text.
\<close>

theorem chunkers_agree:
  "chunkTextByWords_upload text targetWords overlapWords =
     chunkTextByWords text targetWords overlapWords \<and>
   (extractedText documentData = Some t \<and> trim t \<noteq> [] \<longrightarrow>
      (\<exists>chunks. loadChunks [] documentData = Inr chunks \<and>
         map chunk_text chunks = chunkTextByWords_upload t 900 120))"
proof (intro conjI impI)
  show e: "chunkTextByWords_upload text targetWords overlapWords =
     chunkTextByWords text targetWords overlapWords" for "text" targetWords overlapWords
    by (simp only: chunkTextByWords_upload_def chunkTextByWords_def chunkLoop_upload_eq)
  assume "extractedText documentData = Some t \<and> trim t \<noteq> []"
  then have l: "loadChunks [] documentData =
         Inr (map (\<lambda>i. \<lparr> chunk_id = ''fallback_'' @ showNat i, chunk_index = int i,
                          chunk_text = chunkTextByWords t 900 120 ! i, chunk_embedding = None \<rparr>)
                [0..<length (chunkTextByWords t 900 120)])"
    by (simp add: loadChunks_fallback)
  have "map chunk_text
          (map (\<lambda>i. \<lparr> chunk_id = ''fallback_'' @ showNat i, chunk_index = int i,
                          chunk_text = chunkTextByWords t 900 120 ! i, chunk_embedding = None \<rparr>)
                [0..<length (chunkTextByWords t 900 120)]) = chunkTextByWords t 900 120"
    by (simp add: comp_def map_nth)
  with l e [of t 900 120]
  show "\<exists>chunks. loadChunks [] documentData = Inr chunks \<and>
         map chunk_text chunks = chunkTextByWords_upload t 900 120"
    by simp
qed

text \<open>
  Both chunkers on three words, in windows of two words that overlap by one, and on the
  extracted text of a document without stored chunk records.
\<close>

theorem chunkers_agree_witness:
  "chunkTextByWords_upload ''a b  c'' 2 1 = [''a b'', ''b c''] \<and>
   chunkTextByWords ''a b  c'' 2 1 = [''a b'', ''b c''] \<and>
   trim ''a b'' \<noteq> [] \<and> chunkTextByWords_upload ''a b'' 900 120 = [''a b''] \<and>
   map chunk_text (projr (loadChunks [] \<lparr> extractedText = Some ''a b'' \<rparr>)) = [''a b'']"
proof -
  have c: "chunkTextByWords ''a b  c'' 2 1 = [''a b'', ''b c'']" by code_simp
  have t: "trim ''a b'' \<noteq> []" by code_simp
  have d: "chunkTextByWords ''a b'' 900 120 = [''a b'']" by code_simp
  note T = chunkers_agree [of _ _ _ "\<lparr> extractedText = Some ''a b'' \<rparr>" "''a b''"]
  from T [of "''a b  c''" 2 1] c
  have 1: "chunkTextByWords_upload ''a b  c'' 2 1 = [''a b'', ''b c'']" by simp
  from T [of "''a b''" 900 120] d
  have 2: "chunkTextByWords_upload ''a b'' 900 120 = [''a b'']" by simp
  from T [of "''a b''" 900 120] t 2
  have 3: "map chunk_text (projr (loadChunks [] \<lparr> extractedText = Some ''a b'' \<rparr>)) = [''a b'']"
    by auto
  from c t 1 2 3 show ?thesis by simp
qed

text \<open>
  Claim C3, amended. A text of exactly 1000 words, with \<open>targetWords = 900\<close> and
  \<open>overlapWords = 120\<close>, gives exactly two chunks: the words 0 to 899 and the words 780 to 999,
  which are 220 words. In general, for a text with at least one word and \<open>targetWords\<close> at
  least 1, every window the loop visits gives a chunk, the last window and no earlier one ends
  at the number of words, and the last chunk runs to the last word of the text.
\<close>

theorem chunk_windows:
  "(length (wordsOf text) = 1000 \<longrightarrow>
      chunkTextByWords text 900 120 =
        [join '' '' (take 900 (wordsOf text)), join '' '' (drop 780 (wordsOf text))] \<and>
      length (drop 780 (wordsOf text)) = 220) \<and>
   (wordsOf text \<noteq> [] \<and> 1 \<le> targetWords \<longrightarrow>
      (let n = length (wordsOf text);
           W = chunkWindows n targetWords overlapWords 0;
           cs = chunkTextByWords text targetWords overlapWords
       in cs = map (windowText (wordsOf text)) W \<and> W \<noteq> [] \<and> snd (last W) = int n \<and>
          (\<forall>w \<in> set (butlast W). snd w < int n) \<and>
          (\<exists>s < n. last cs = join '' '' (drop s (wordsOf text)))))"
proof (intro conjI impI)
  assume "length (wordsOf text) = 1000"
  then show "chunkTextByWords text 900 120 =
        [join '' '' (take 900 (wordsOf text)), join '' '' (drop 780 (wordsOf text))]"
    by (rule chunk_1000)
next
  assume "length (wordsOf text) = 1000"
  then show "length (drop 780 (wordsOf text)) = 220" by simp
next
  assume a: "wordsOf text \<noteq> [] \<and> 1 \<le> targetWords"
  then have "0 < int (length (wordsOf text))" by simp
  from chunkWindows_pos [OF _ order_refl this, of targetWords overlapWords] a
    chunkTextByWords_pos [of "text" targetWords overlapWords]
    chunk_final [of "text" targetWords overlapWords]
  show "let n = length (wordsOf text);
           W = chunkWindows n targetWords overlapWords 0;
           cs = chunkTextByWords text targetWords overlapWords
       in cs = map (windowText (wordsOf text)) W \<and> W \<noteq> [] \<and> snd (last W) = int n \<and>
          (\<forall>w \<in> set (butlast W). snd w < int n) \<and>
          (\<exists>s < n. last cs = join '' '' (drop s (wordsOf text)))"
    by (simp add: Let_def)
qed

text \<open>
  With \<open>targetWords = 0\<close> every window is empty: a text of two words gives no chunk, and the
  loop leaves through its condition after the window \<open>(1, 1)\<close>, whose end is not the number of
  words. With \<open>targetWords = -1\<close> the end of the first window counts from the end of the
  array: three words give the one chunk \<^verbatim>\<open>a b\<close>, which stops before the last word.
\<close>

theorem chunk_windows_counterexample:
  "wordsOf ''a b'' = [''a'', ''b''] \<and> chunkTextByWords ''a b'' 0 0 = [] \<and>
   snd (last (chunkWindows (length (wordsOf ''a b'')) 0 0 0)) \<noteq> int (length (wordsOf ''a b'')) \<and>
   wordsOf ''a b c'' = [''a'', ''b'', ''c''] \<and> chunkTextByWords ''a b c'' (- 1) 0 = [''a b'']"
  by code_simp

text \<open>
  The text of the specification's example, \<^verbatim>\<open>"word ".repeat(1000)\<close>, and three words in windows
  of two.
\<close>

theorem chunk_windows_witness:
  "length (wordsOf (concat (replicate 1000 ''word ''))) = 1000 \<and>
   chunkTextByWords (concat (replicate 1000 ''word '')) 900 120 =
     [join '' '' (replicate 900 ''word''), join '' '' (replicate 220 ''word'')] \<and>
   wordsOf ''a b c'' \<noteq> [] \<and> (1::int) \<le> 2 \<and>
   chunkTextByWords ''a b c'' 2 1 = [''a b'', ''b c''] \<and>
   chunkWindows (length (wordsOf ''a b c'')) 2 1 0 = [(0, 2), (1, 3)]"
proof -
  have w: "wordsOf (concat (replicate 1000 ''word '')) = replicate 1000 ''word''"
    by (rule wordsOf_replicate)
  have l: "length (wordsOf (concat (replicate 1000 ''word ''))) = 1000"
    by (simp add: w)
  have s: "wordsOf ''a b c'' \<noteq> []" by code_simp
  have c: "chunkWindows (length (wordsOf ''a b c'')) 2 1 0 = [(0, 2), (1, 3)]" by code_simp
  have m: "windowText (wordsOf ''a b c'') (0, 2) = ''a b''"
    "windowText (wordsOf ''a b c'') (1, 3) = ''b c''"
    by code_simp+
  have "chunkTextByWords (concat (replicate 1000 ''word '')) 900 120 =
     [join '' '' (replicate 900 ''word''), join '' '' (replicate 220 ''word'')]"
    using chunk_windows [of "concat (replicate 1000 ''word '')" 2 1] l
    by (simp add: w)
  moreover have "chunkTextByWords ''a b c'' 2 1 = [''a b'', ''b c'']"
    using chunk_windows [of "''a b c''" 2 1]
    by (simp add: s c m Let_def)
  ultimately show ?thesis using l s c by simp
qed

text \<open>
  Claim C4, amended. The empty text gives no chunk, and so does a text of white space only. A
  text with at least one word and fewer than \<open>targetWords\<close> words gives exactly one chunk: its
  words joined by single spaces. That chunk is the whole text when the text is words
  separated by single spaces, with no white space before the first or after the last.
\<close>

theorem chunk_short_text:
  "chunkTextByWords [] targetWords overlapWords = [] \<and>
   (trim text = [] \<longrightarrow> chunkTextByWords text targetWords overlapWords = []) \<and>
   (wordsOf text \<noteq> [] \<and> int (length (wordsOf text)) < targetWords \<longrightarrow>
      chunkTextByWords text targetWords overlapWords = [join '' '' (wordsOf text)]) \<and>
   (ws \<noteq> [] \<and> (\<forall>w \<in> set ws. w \<noteq> [] \<and> (\<forall>c \<in> set w. \<not> isWhiteSpace c)) \<and>
    int (length ws) < targetWords \<longrightarrow>
      chunkTextByWords (join '' '' ws) targetWords overlapWords = [join '' '' ws])"
proof (intro conjI impI)
  show "chunkTextByWords [] targetWords overlapWords = []"
    by (simp add: chunkTextByWords_def)
next
  assume "trim text = []"
  then show "chunkTextByWords text targetWords overlapWords = []" by (rule chunk_blank)
next
  assume "wordsOf text \<noteq> [] \<and> int (length (wordsOf text)) < targetWords"
  then show "chunkTextByWords text targetWords overlapWords = [join '' '' (wordsOf text)]"
    by (simp add: chunk_short)
next
  assume a: "ws \<noteq> [] \<and> (\<forall>w \<in> set ws. w \<noteq> [] \<and> (\<forall>c \<in> set w. \<not> isWhiteSpace c)) \<and>
    int (length ws) < targetWords"
  then have "wordsOf (join '' '' ws) = ws" by (simp add: wordsOf_join)
  with a chunk_short [of "join '' '' ws" targetWords overlapWords]
  show "chunkTextByWords (join '' '' ws) targetWords overlapWords = [join '' '' ws]"
    by simp
qed

text \<open>
  Two words with two spaces between them give the chunk with one space, which is not the
  text; and a text that is one space, which is not empty and has fewer than 900 words, gives
  no chunk.
\<close>

theorem chunk_short_text_counterexample:
  "chunkTextByWords ''a  b'' 900 120 \<noteq> [''a  b''] \<and> chunkTextByWords '' '' 900 120 = []"
  by code_simp

text \<open>A text of one space, two words two spaces apart, and two words one space apart.\<close>

theorem chunk_short_text_witness:
  "trim '' '' = [] \<and> chunkTextByWords '' '' 900 120 = [] \<and>
   wordsOf ''a  b'' \<noteq> [] \<and> int (length (wordsOf ''a  b'')) < 900 \<and>
   chunkTextByWords ''a  b'' 900 120 = [''a b''] \<and>
   chunkTextByWords ''a b'' 900 120 = [''a b'']"
proof -
  have t: "trim '' '' = []" by code_simp
  have w: "wordsOf ''a  b'' = [''a'', ''b'']" by code_simp
  have n: "\<forall>w \<in> set [''a'', ''b'']. w \<noteq> [] \<and> (\<forall>c \<in> set w. \<not> isWhiteSpace c)"
    by (simp add: isWhiteSpace_def)
  from chunk_short_text [of 900 120 "'' ''" "[''a'', ''b'']"] t
  have 1: "chunkTextByWords '' '' 900 120 = []" by simp
  from chunk_short_text [of 900 120 "''a  b''" "[''a'', ''b'']"] w n
  have 2: "chunkTextByWords ''a  b'' 900 120 = [''a b'']"
    and 3: "chunkTextByWords ''a b'' 900 120 = [''a b'']" by simp_all
  from t w 1 2 3 show ?thesis by simp
qed

section \<open>The claims about the prefilter\<close>

text \<open>
  Claim C5, amended. When the question has no usable term (a run of \<^verbatim>\<open>[a-z0-9]\<close> of the
  lowercased question longer than 2), or no term of the question occurs in any chunk, so that
  the top score is 0, \<open>prefilterChunks\<close> returns the indices \<open>0, 1, ..., min(cap, N) - 1\<close> in
  that order, for every \<open>cap\<close>. For every \<open>cap\<close> that is not negative its result has at most
  \<open>cap\<close> elements, whatever the question and the chunks.
\<close>

theorem prefilter_no_signal:
  "((questionTerms question = [] \<or>
     (\<forall>c \<in> set chunks. \<forall>t \<in> set (questionTerms question). \<not> includesStr (toLowerCase c) t)) \<longrightarrow>
    prefilterChunks question chunks cap = [0..<nat (min cap (int (length chunks)))]) \<and>
   (0 \<le> cap \<longrightarrow> int (length (prefilterChunks question chunks cap)) \<le> cap)"
proof (intro conjI impI)
  assume "questionTerms question = [] \<or>
     (\<forall>c \<in> set chunks. \<forall>t \<in> set (questionTerms question). \<not> includesStr (toLowerCase c) t)"
  with prefilter_fallback [of question chunks cap]
  show "prefilterChunks question chunks cap = [0..<nat (min cap (int (length chunks)))]"
    by blast
next
  assume "0 \<le> cap"
  then show "int (length (prefilterChunks question chunks cap)) \<le> cap"
    by (simp add: prefilter_length)
qed

text \<open>
  With \<open>cap = -1\<close> and three chunks \<^verbatim>\<open>take\<close> is \<open>-1\<close>, and \<^verbatim>\<open>scored.slice(0, -1)\<close> keeps all
  but the last element: two indices come back, more than \<open>cap\<close>.
\<close>

theorem prefilter_no_signal_counterexample:
  "prefilterChunks ''tax'' [''tax'', ''tax law'', ''x''] (- 1) = [0, 1] \<and>
   \<not> int (length (prefilterChunks ''tax'' [''tax'', ''tax law'', ''x''] (- 1))) \<le> - 1"
  by code_simp

text \<open>
  A question without a usable term, a question whose terms occur in no chunk, and a question
  with a term that occurs in a chunk.
\<close>

theorem prefilter_no_signal_witness:
  "questionTerms ''is it?'' = [] \<and>
   prefilterChunks ''is it?'' [''a'', ''b'', ''c''] 2 = [0, 1] \<and>
   questionTerms ''Late fees'' = [''late'', ''fees''] \<and>
   prefilterChunks ''Late fees'' [''rent'', ''term''] 60 = [0, 1] \<and>
   int (length (prefilterChunks ''Late fees'' [''Rent'', ''any FEES due'', ''x''] 2)) \<le> 2"
proof -
  have t1: "questionTerms ''is it?'' = []" by code_simp
  have t2: "questionTerms ''Late fees'' = [''late'', ''fees'']" by code_simp
  have n: "\<forall>c \<in> set [''rent'', ''term'']. \<forall>t \<in> set [''late'', ''fees''].
             \<not> includesStr (toLowerCase c) t"
    by code_simp
  from prefilter_no_signal [of "''is it?''" "[''a'', ''b'', ''c'']" 2] t1
  have 1: "prefilterChunks ''is it?'' [''a'', ''b'', ''c''] 2 = [0, 1]"
    by (simp add: upt_conv_Cons)
  from prefilter_no_signal [of "''Late fees''" "[''rent'', ''term'']" 60] n
  have 2: "prefilterChunks ''Late fees'' [''rent'', ''term''] 60 = [0, 1]"
    by (simp add: t2 upt_conv_Cons)
  from prefilter_no_signal [of "''Late fees''" "[''Rent'', ''any FEES due'', ''x'']" 2]
  have 3: "int (length (prefilterChunks ''Late fees'' [''Rent'', ''any FEES due'', ''x''] 2)) \<le> 2"
    by simp
  from t1 t2 1 2 3 show ?thesis by simp
qed

text \<open>
  Claim C6, amended. The score of a chunk is the number of terms of the question, a term that
  the question repeats counted once for each time it is there, that occur as a substring of
  the lowercased chunk text; a term adds at most 1 however often it occurs in the chunk. For a
  question without a repeated term this is the number of distinct terms that occur. For a
  question with at least one usable term and a \<open>cap\<close> that is not negative, the result is the
  first \<open>min(cap, N)\<close> indices of the chunks in the order of descending score, chunks of equal
  score in their original order.
\<close>

theorem prefilter_scoring:
  "termScore lc terms 0 = int (length (filter (\<lambda>t. includesStr lc t) terms)) \<and>
   (distinct terms \<longrightarrow> termScore lc terms 0 = distinctTermScore lc terms) \<and>
   (questionTerms question \<noteq> [] \<and> 0 \<le> cap \<longrightarrow>
      (\<exists>perm. mset perm = mset [0..<length chunks] \<and>
         sorted_wrt (\<lambda>i j.
            termScore (toLowerCase (chunks ! i)) (questionTerms question) 0 >
              termScore (toLowerCase (chunks ! j)) (questionTerms question) 0 \<or>
            (termScore (toLowerCase (chunks ! i)) (questionTerms question) 0 =
               termScore (toLowerCase (chunks ! j)) (questionTerms question) 0 \<and> i < j)) perm \<and>
         prefilterChunks question chunks cap = take (nat (min cap (int (length chunks)))) perm))"
proof (intro conjI impI)
  show "termScore lc terms 0 = int (length (filter (\<lambda>t. includesStr lc t) terms))"
    by (rule termScore_count)
next
  assume "distinct terms"
  then show "termScore lc terms 0 = distinctTermScore lc terms" by (rule termScore_distinct)
next
  assume a: "questionTerms question \<noteq> [] \<and> 0 \<le> cap"
  let ?perm = "map fst (sortedScored (questionTerms question) chunks)"
  have "mset ?perm = mset [0..<length chunks]" by (rule sortedScored_perm)
  moreover note sortedScored_order [of chunks "questionTerms question"]
  moreover have "prefilterChunks question chunks cap =
      take (nat (min cap (int (length chunks)))) ?perm"
    using a by (simp add: prefilter_sorted_prefix)
  ultimately show "\<exists>perm. mset perm = mset [0..<length chunks] \<and>
         sorted_wrt (\<lambda>i j.
            termScore (toLowerCase (chunks ! i)) (questionTerms question) 0 >
              termScore (toLowerCase (chunks ! j)) (questionTerms question) 0 \<or>
            (termScore (toLowerCase (chunks ! i)) (questionTerms question) 0 =
               termScore (toLowerCase (chunks ! j)) (questionTerms question) 0 \<and> i < j)) perm \<and>
         prefilterChunks question chunks cap = take (nat (min cap (int (length chunks)))) perm"
    by blast
qed

text \<open>
  The question \<^verbatim>\<open>tax tax law fee\<close> holds the term \<^verbatim>\<open>tax\<close> twice. The chunk \<^verbatim>\<open>tax\<close> scores 2,
  though one distinct term occurs in it, and ties with the chunk \<^verbatim>\<open>law fee\<close>, in which two
  distinct terms occur: with \<open>cap = 1\<close> index 0 is kept, not index 1.
\<close>

theorem prefilter_scoring_counterexample:
  "questionTerms ''tax tax law fee'' = [''tax'', ''tax'', ''law'', ''fee''] \<and>
   termScore (toLowerCase ''tax'') (questionTerms ''tax tax law fee'') 0 = 2 \<and>
   distinctTermScore (toLowerCase ''tax'') (questionTerms ''tax tax law fee'') = 1 \<and>
   distinctTermScore (toLowerCase ''law fee'') (questionTerms ''tax tax law fee'') = 2 \<and>
   prefilterChunks ''tax tax law fee'' [''tax'', ''law fee''] 1 = [0]"
  by code_simp

text \<open>A question of two distinct terms on three chunks, the last of which holds both.\<close>

theorem prefilter_scoring_witness:
  "distinct (questionTerms ''Late fees'') \<and> questionTerms ''Late fees'' \<noteq> [] \<and>
   termScore (toLowerCase ''any FEES due, fees'') (questionTerms ''Late fees'') 0 = 1 \<and>
   distinctTermScore (toLowerCase ''any FEES due, fees'') (questionTerms ''Late fees'') = 1 \<and>
   prefilterChunks ''Late fees'' [''Rent'', ''any FEES due'', ''late fees''] 2 = [2, 1]"
proof -
  have t: "questionTerms ''Late fees'' = [''late'', ''fees'']" by code_simp
  have d: "distinct (questionTerms ''Late fees'')" "questionTerms ''Late fees'' \<noteq> []"
    by (simp_all add: t)
  have s: "termScore (toLowerCase ''any FEES due, fees'') (questionTerms ''Late fees'') 0 = 1"
    by code_simp
  have p: "prefilterChunks ''Late fees'' [''Rent'', ''any FEES due'', ''late fees''] 2 = [2, 1]"
    by code_simp
  from prefilter_scoring [of "toLowerCase ''any FEES due, fees''" "questionTerms ''Late fees''"
      "''Late fees''" 2 "[''Rent'', ''any FEES due'', ''late fees'']"] d s
  have "distinctTermScore (toLowerCase ''any FEES due, fees'') (questionTerms ''Late fees'') = 1"
    by simp
  with d s p show ?thesis by simp
qed

section \<open>The claims about the selection\<close>



section \<open>The claims about the callable\<close>





text \<open>
  Claim C10. A response of the callable holds at least 1 and at most 6 citations, and as many
  \<open>topChunkIds\<close>. On the way there: the chunks that were loaded are not empty, the prefilter
  with \<open>cap = 60\<close> returns at least one index for them, \<open>k\<close> is 2, 4 or 6, and the chunks
  selected from a non-empty chunk list are between 1 and 6.
\<close>

theorem evidence_count:
  "(fst (askQuestion sv request w) = Inr r \<longrightarrow>
      1 \<le> length (res_citations r) \<and> length (res_citations r) \<le> 6 \<and>
      length (res_topChunkIds r) = length (res_citations r)) \<and>
   (fetchChunks sv documentId w = (Inr chunks, w1) \<longrightarrow>
      chunks \<noteq> [] \<and> prefilterChunks question (map chunk_text chunks) 60 \<noteq> []) \<and>
   dynamicK maxSim \<in> {2, 4, 6} \<and>
   (chunks \<noteq> [] \<and> retrieveTopChunks sv question chunks w = (Resolved topChunks, w') \<longrightarrow>
      1 \<le> length topChunks \<and> length topChunks \<le> 6)"
proof (intro conjI impI)
  assume a: "fst (askQuestion sv request w) = Inr r"
  from askQuestion_success [OF a]
  show "1 \<le> length (res_citations r)" "length (res_citations r) \<le> 6"
    "length (res_topChunkIds r) = length (res_citations r)" by simp_all
next
  assume f: "fetchChunks sv documentId w = (Inr chunks, w1)"
  from fetchChunks_nonempty [OF f] show c: "chunks \<noteq> []" .
  then show "prefilterChunks question (map chunk_text chunks) 60 \<noteq> []"
    by (simp add: prefilter_nonempty)
next
  show "dynamicK maxSim \<in> {2, 4, 6}" by (rule dynamicK_cases)
next
  assume a: "chunks \<noteq> [] \<and> retrieveTopChunks sv question chunks w = (Resolved topChunks, w')"
  from retrieveTopChunks_count [of sv question chunks w topChunks w'] a
  show "1 \<le> length topChunks" "length topChunks \<le> 6" by simp_all
qed

text \<open>The small instance: the callable answers with two citations.\<close>

theorem evidence_count_witness:
  "fst (askQuestion (stubServices None stubChunkDocs True) stubRequest 0) = Inr stubAnswer \<and>
   length (res_citations stubAnswer) = 2 \<and> length (res_topChunkIds stubAnswer) = 2 \<and>
   fetchChunks (stubServices None stubChunkDocs True) ''d1'' 0 = (Inr stubChunks, 0) \<and>
   stubChunks \<noteq> [] \<and>
   retrieveTopChunks (stubServices None stubChunkDocs True) ''Late fees?'' stubChunks 0 =
     (Resolved stubChunks, 1)"
proof -
  have a: "fst (askQuestion (stubServices None stubChunkDocs True) stubRequest 0) = Inr stubAnswer"
    by (simp add: stub_askQuestion)
  have f: "fetchChunks (stubServices None stubChunkDocs True) ''d1'' 0 = (Inr stubChunks, 0)"
    by (rule stub_fetch)
  have r: "retrieveTopChunks (stubServices None stubChunkDocs True) ''Late fees?'' stubChunks 0 =
     (Resolved stubChunks, 1)"
    by (simp add: stub_retrieve)
  note T = evidence_count [where sv = "stubServices None stubChunkDocs True"
      and request = stubRequest and w = 0 and r = stubAnswer and documentId = "''d1''"
      and chunks = stubChunks and ?w1.0 = 0 and question = "''Late fees?''"
      and maxSim = "Num 1" and topChunks = stubChunks and w' = 1]
  from T a f r have "1 \<le> length (res_citations stubAnswer) \<and>
      length (res_citations stubAnswer) \<le> 6 \<and>
      length (res_topChunkIds stubAnswer) = length (res_citations stubAnswer) \<and>
      stubChunks \<noteq> []"
    by blast
  moreover have "length (res_citations stubAnswer) = 2" by (simp add: stubAnswer_def)
  ultimately show ?thesis using a f r by simp
qed

section \<open>The claims about the cosine similarity\<close>




end
